theory Spec2Isabelle
  imports Complex_Main
begin

section \<open>Python values and errors\<close>

text \<open>
  The program is \<^verbatim>\<open>tensorpack/train.py\<close>: the class \<^verbatim>\<open>TrainConfig\<close>, the helpers
  \<^verbatim>\<open>average_gradients\<close> and \<^verbatim>\<open>summary_grads\<close>, and \<^verbatim>\<open>start_train\<close>. An exception
  of the source is a value of \<open>error\<close>; a function that can raise returns
  \<open>error + 'a\<close>, with \<open>Inl\<close> for the exception.
\<close>

datatype error =
    KeyError string
  | AssertionError
  | TypeError
  | ValueError
  | IndexError
  | NameError
  | OtherError string

definition bind_err :: "error + 'a \<Rightarrow> ('a \<Rightarrow> error + 'b) \<Rightarrow> error + 'b" where
  "bind_err m f = (case m of Inl e \<Rightarrow> Inl e | Inr x \<Rightarrow> f x)"

text \<open>Element types of tensors (TensorFlow's \<^verbatim>\<open>DType\<close> values).\<close>

datatype dtype = DT_FLOAT | DT_DOUBLE | DT_INT32 | DT_INT64 | DT_UINT8 | DT_BOOL | DT_STRING

text \<open>
  A static shape is \<open>None\<close> when the rank is unknown, and otherwise the list of its
  dimensions, each of which may itself be unknown.
\<close>

type_synonym tshape = "nat option list option"

text \<open>
  A graph tensor that carries static information: an input variable of the
  configuration, or one component of a dequeue operation.
\<close>

record itensor =
  t_name :: string
  t_dtype :: dtype
  t_shape :: tshape

datatype queue_class = FIFO | RandomShuffle

text \<open>
  A queue holds records of several components. Each component has a dtype and a static
  shape, unknown unless the queue was built with \<^verbatim>\<open>shapes\<close>.
\<close>

record queue =
  q_class :: queue_class
  q_capacity :: int
  q_components :: "(dtype \<times> tshape) list"
  q_name :: string

text \<open>The property \<^verbatim>\<open>queue.dtypes\<close>, and the shapes of the components.\<close>

definition q_dtypes :: "queue \<Rightarrow> dtype list" where
  "q_dtypes q = map fst (q_components q)"

definition q_shapes :: "queue \<Rightarrow> tshape list" where
  "q_shapes q = map snd (q_components q)"

text \<open>
  \<^verbatim>\<open>tf.FIFOQueue(capacity, dtypes, name=name)\<close>: no shapes are given, so every component
  has an unknown shape. TensorFlow refuses a queue without components with a
  \<^verbatim>\<open>ValueError\<close>.
\<close>

definition FIFOQueue :: "int \<Rightarrow> dtype list \<Rightarrow> string \<Rightarrow> error + queue" where
  "FIFOQueue capacity dtypes name =
     (if dtypes = [] then Inl ValueError
      else Inr \<lparr>q_class = FIFO, q_capacity = capacity,
                q_components = map (\<lambda>d. (d, None)) dtypes, q_name = name\<rparr>)"

text \<open>
  The values a keyword argument can hold, as far as the constructor tells them apart:
  plain Python values, and instances of the classes it checks with \<^verbatim>\<open>isinstance\<close>.
  A \<open>PDataFlow\<close> carries what its \<^verbatim>\<open>size()\<close> returns; the other collaborators are
  opaque and carry a label only.
\<close>

datatype pyobj =
    PNone
  | PBool bool
  | PInt int
  | PList "pyobj list"
  | PDataFlow int
  | POptimizer string
  | PCallbacks string
  | PConfigProto string
  | PSessionInit string
  | PTensor itensor
  | PQueue queue
  | PFunction string
  | PObject string

datatype pyclass =
    DataFlow | tf_Optimizer | Callbacks | tf_ConfigProto | SessionInit | tf_Tensor | tf_QueueBase

fun class_of :: "pyobj \<Rightarrow> pyclass option" where
  "class_of (PDataFlow _) = Some DataFlow"
| "class_of (POptimizer _) = Some tf_Optimizer"
| "class_of (PCallbacks _) = Some Callbacks"
| "class_of (PConfigProto _) = Some tf_ConfigProto"
| "class_of (PSessionInit _) = Some SessionInit"
| "class_of (PTensor _) = Some tf_Tensor"
| "class_of (PQueue _) = Some tf_QueueBase"
| "class_of _ = None"

definition isinstance :: "pyobj \<Rightarrow> pyclass \<Rightarrow> bool" where
  "isinstance v tp = (class_of v = Some tp)"

text \<open>\<^verbatim>\<open>assert isinstance(v, tp), v.__class__\<close>\<close>

definition assert_type :: "pyobj \<Rightarrow> pyclass \<Rightarrow> error + unit" where
  "assert_type v tp = (if isinstance v tp then Inr () else Inl AssertionError)"

text \<open>Python's \<^verbatim>\<open>int(v)\<close> on the values of \<open>pyobj\<close>.\<close>

fun py_int :: "pyobj \<Rightarrow> error + int" where
  "py_int (PInt n) = Inr n"
| "py_int (PBool b) = Inr (if b then 1 else 0)"
| "py_int _ = Inl TypeError"

text \<open>Truth value of an object, as \<^verbatim>\<open>if v:\<close> tests it.\<close>

fun truthy :: "pyobj \<Rightarrow> bool" where
  "truthy PNone = False"
| "truthy (PBool b) = b"
| "truthy (PInt n) = (n \<noteq> 0)"
| "truthy (PList xs) = (xs \<noteq> [])"
| "truthy _ = True"

section \<open>TrainConfig\<close>

text \<open>
  \<^verbatim>\<open>**kwargs\<close> is a dictionary from names to values. It is kept as an association list
  read through \<open>map_of\<close>; \<^verbatim>\<open>kwargs.pop(k)\<close> removes every pair of key \<open>k\<close>, so that the
  list is empty exactly when the dictionary is.
\<close>

type_synonym kwargs = "(string \<times> pyobj) list"

definition remove_key :: "string \<Rightarrow> kwargs \<Rightarrow> kwargs" where
  "remove_key k kw = filter (\<lambda>p. fst p \<noteq> k) kw"

text \<open>\<^verbatim>\<open>kwargs.pop(k)\<close>: raises \<^verbatim>\<open>KeyError\<close> when the key is missing.\<close>

definition pop :: "string \<Rightarrow> kwargs \<Rightarrow> error + (pyobj \<times> kwargs)" where
  "pop k kw = (case map_of kw k of
                 None \<Rightarrow> Inl (KeyError k)
               | Some v \<Rightarrow> Inr (v, remove_key k kw))"

text \<open>\<^verbatim>\<open>kwargs.pop(k, d)\<close>: the default \<open>d\<close> has been evaluated by the caller.\<close>

definition pop_default :: "string \<Rightarrow> pyobj \<Rightarrow> kwargs \<Rightarrow> pyobj \<times> kwargs" where
  "pop_default k d kw = (case map_of kw k of
                           None \<Rightarrow> (d, kw)
                         | Some v \<Rightarrow> (v, remove_key k kw))"

record TrainConfig =
  dataset :: pyobj
  optimizer :: pyobj
  callbacks :: pyobj
  session_config :: pyobj
  session_init :: pyobj
  inputs :: "itensor list"
  input_queue :: queue
  get_model_func :: pyobj
  batched_model_input :: pyobj
  step_per_epoch :: int
  max_epoch :: int
  nr_tower :: int

text \<open>
  \<^verbatim>\<open>[assert_type(i, tf.Tensor) for i in self.inputs]\<close>: the value must be a list, and
  every element a tensor. The tensors are returned in order.
\<close>

fun assert_tensors :: "pyobj list \<Rightarrow> error + itensor list" where
  "assert_tensors [] = Inr []"
| "assert_tensors (PTensor t # rest) =
     bind_err (assert_tensors rest) (\<lambda>ts. Inr (t # ts))"
| "assert_tensors (_ # rest) = Inl AssertionError"

definition as_tensor_list :: "pyobj \<Rightarrow> error + itensor list" where
  "as_tensor_list v = (case v of PList xs \<Rightarrow> assert_tensors xs | _ \<Rightarrow> Inl TypeError)"

definition as_queue :: "pyobj \<Rightarrow> error + queue" where
  "as_queue v = (case v of PQueue q \<Rightarrow> Inr q | _ \<Rightarrow> Inl AssertionError)"

definition dataset_size :: "pyobj \<Rightarrow> error + pyobj" where
  "dataset_size v = (case v of PDataFlow n \<Rightarrow> Inr (PInt n) | _ \<Rightarrow> Inl TypeError)"

text \<open>
  \<^verbatim>\<open>TrainConfig.__init__(self, **kwargs)\<close>, statement by statement. The defaults
  \<^verbatim>\<open>tf.train.AdamOptimizer()\<close>, \<^verbatim>\<open>get_default_sess_config()\<close> and \<^verbatim>\<open>NewSession()\<close>
  are opaque objects of the right class. A default is evaluated before its
  \<^verbatim>\<open>pop\<close>, whether or not the key is present: the default queue is built, and its
  construction can raise, also when a queue is supplied.
\<close>

definition TrainConfig_init :: "kwargs \<Rightarrow> error + TrainConfig" where
  "TrainConfig_init kwargs0 =
     bind_err (pop ''dataset'' kwargs0) (\<lambda>(v_dataset, kwargs1).
     bind_err (assert_type v_dataset DataFlow) (\<lambda>_.
     case pop_default ''optimizer'' (POptimizer ''AdamOptimizer'') kwargs1 of (v_optimizer, kwargs2) \<Rightarrow>
     bind_err (assert_type v_optimizer tf_Optimizer) (\<lambda>_.
     bind_err (pop ''callbacks'' kwargs2) (\<lambda>(v_callbacks, kwargs3).
     bind_err (assert_type v_callbacks Callbacks) (\<lambda>_.
     case pop_default ''session_config'' (PConfigProto ''default'') kwargs3 of (v_session_config, kwargs4) \<Rightarrow>
     bind_err (assert_type v_session_config tf_ConfigProto) (\<lambda>_.
     case pop_default ''session_init'' (PSessionInit ''NewSession'') kwargs4 of (v_session_init, kwargs5) \<Rightarrow>
     bind_err (assert_type v_session_init SessionInit) (\<lambda>_.
     bind_err (pop ''inputs'' kwargs5) (\<lambda>(v_inputs, kwargs6).
     bind_err (as_tensor_list v_inputs) (\<lambda>the_inputs.
     bind_err (FIFOQueue 5 (map t_dtype the_inputs) ''input_queue'') (\<lambda>default_queue.
     case pop_default ''input_queue'' (PQueue default_queue) kwargs6 of
       (v_input_queue, kwargs7) \<Rightarrow>
     bind_err (as_queue v_input_queue) (\<lambda>the_queue.
     if q_dtypes the_queue \<noteq> map t_dtype the_inputs then Inl AssertionError else
     bind_err (pop ''get_model_func'' kwargs7) (\<lambda>(v_get_model_func, kwargs8).
     case pop_default ''batched_model_input'' (PBool True) kwargs8 of
       (v_batched_model_input, kwargs9) \<Rightarrow>
     bind_err (dataset_size v_dataset) (\<lambda>size.
     case pop_default ''step_per_epoch'' size kwargs9 of (v_step_per_epoch, kwargs10) \<Rightarrow>
     bind_err (py_int v_step_per_epoch) (\<lambda>the_step_per_epoch.
     case pop_default ''max_epoch'' (PInt 100) kwargs10 of (v_max_epoch, kwargs11) \<Rightarrow>
     bind_err (py_int v_max_epoch) (\<lambda>the_max_epoch.
     if \<not> (the_step_per_epoch > 0 \<and> the_max_epoch > 0) then Inl AssertionError else
     case pop_default ''nr_tower'' (PInt 1) kwargs11 of (v_nr_tower, kwargs12) \<Rightarrow>
     bind_err (py_int v_nr_tower) (\<lambda>the_nr_tower.
     if length kwargs12 \<noteq> 0 then Inl AssertionError else
     Inr \<lparr>dataset = v_dataset, optimizer = v_optimizer, callbacks = v_callbacks,
          session_config = v_session_config, session_init = v_session_init,
          inputs = the_inputs, input_queue = the_queue,
          get_model_func = v_get_model_func,
          batched_model_input = v_batched_model_input,
          step_per_epoch = the_step_per_epoch, max_epoch = the_max_epoch,
          nr_tower = the_nr_tower\<rparr>))))))))))))))))"

text \<open>A complete argument list, used to run the constructor on concrete inputs.\<close>

definition mnist_inputs :: "itensor list" where
  "mnist_inputs =
     [\<lparr>t_name = ''input'', t_dtype = DT_FLOAT, t_shape = Some [Some 128, Some 28, Some 28]\<rparr>,
      \<lparr>t_name = ''label'', t_dtype = DT_INT32, t_shape = Some [Some 128]\<rparr>]"

definition base_kwargs :: kwargs where
  "base_kwargs =
     [(''dataset'', PDataFlow 468),
      (''callbacks'', PCallbacks ''callbacks''),
      (''inputs'', PList (map PTensor mnist_inputs)),
      (''get_model_func'', PFunction ''get_model'')]"

section \<open>Gradients\<close>

text \<open>
  A tensor of the graph, as far as this file builds it: a tensor made elsewhere (by the
  model function or the optimizer), known by its name, or the result of one of the three
  operations \<^verbatim>\<open>average_gradients\<close> applies, each along axis 0 as the source passes it:
  \<^verbatim>\<open>tf.expand_dims(t, 0)\<close>, \<^verbatim>\<open>tf.concat(0, ts)\<close> and \<^verbatim>\<open>tf.reduce_mean(t, 0)\<close>.
\<close>

datatype tensor =
    TensorRef string
  | ExpandDims tensor
  | Concat "tensor list"
  | ReduceMean tensor

datatype variable = Variable (op_name: string)

text \<open>
  What \<^verbatim>\<open>compute_gradients\<close> returns: a list of (gradient, variable) pairs, the gradient
  \<^verbatim>\<open>None\<close> when the loss does not depend on the variable.
\<close>

type_synonym GradientSet = "(tensor option \<times> variable) list"

text \<open>
  \<^verbatim>\<open>zip(*tower_grads)\<close>: the rows of the transposed list, as many as the shortest tower
  has entries; none when there is no tower.
\<close>

function zip_star :: "'a list list \<Rightarrow> 'a list list" where
  "zip_star xss =
     (if xss = [] \<or> [] \<in> set xss then [] else map hd xss # zip_star (map tl xss))"
  by pat_completeness auto
termination
proof (relation "measure (\<lambda>xss. length (hd xss))")
  show "wf (measure (\<lambda>xss. length (hd xss)))" by simp
next
  fix xss :: "'a list list"
  assume "\<not> (xss = [] \<or> [] \<in> set xss)"
  then show "(map tl xss, xss) \<in> measure (\<lambda>xss. length (hd xss))"
    by (cases xss) (auto simp: neq_Nil_conv)
qed

declare zip_star.simps [simp del]

text \<open>
  \<^verbatim>\<open>tf.expand_dims(g, 0)\<close> converts its argument to a tensor and raises on \<^verbatim>\<open>None\<close>;
  \<^verbatim>\<open>tf.concat(0, grads)\<close> raises on an empty list.
\<close>

definition expand_dims :: "tensor option \<Rightarrow> error + tensor" where
  "expand_dims g = (case g of None \<Rightarrow> Inl ValueError | Some t \<Rightarrow> Inr (ExpandDims t))"

definition tf_concat :: "tensor list \<Rightarrow> error + tensor" where
  "tf_concat ts = (if ts = [] then Inl ValueError else Inr (Concat ts))"

text \<open>The inner loop of \<^verbatim>\<open>average_gradients\<close>: \<^verbatim>\<open>for g, _ in grad_and_vars\<close>.\<close>

fun expand_all :: "(tensor option \<times> 'v) list \<Rightarrow> error + tensor list" where
  "expand_all [] = Inr []"
| "expand_all ((g, _) # rest) =
     bind_err (expand_dims g) (\<lambda>expanded_g.
     bind_err (expand_all rest) (\<lambda>grads. Inr (expanded_g # grads)))"

text \<open>The body of the outer loop, for one row \<^verbatim>\<open>grad_and_vars\<close>.\<close>

definition average_row :: "(tensor option \<times> 'v) list \<Rightarrow> error + (tensor option \<times> 'v)" where
  "average_row grad_and_vars =
     bind_err (expand_all grad_and_vars) (\<lambda>grads.
     bind_err (tf_concat grads) (\<lambda>grad.
     case grad_and_vars of
       [] \<Rightarrow> Inl IndexError
     | first # _ \<Rightarrow> Inr (Some (ReduceMean grad), snd first)))"

fun average_rows :: "(tensor option \<times> 'v) list list \<Rightarrow> error + (tensor option \<times> 'v) list" where
  "average_rows [] = Inr []"
| "average_rows (grad_and_vars # rest) =
     bind_err (average_row grad_and_vars) (\<lambda>grad_and_var.
     bind_err (average_rows rest) (\<lambda>average_grads. Inr (grad_and_var # average_grads)))"

definition average_gradients ::
    "(tensor option \<times> 'v) list list \<Rightarrow> error + (tensor option \<times> 'v) list" where
  "average_gradients tower_grads = average_rows (zip_star tower_grads)"

subsection \<open>What the averaged tensors compute\<close>

text \<open>
  The value of a tensor in one execution: an array in row-major order with its shape.
  Elements are real numbers (floating-point rounding is not modelled).
\<close>

record ndarray =
  dims :: "nat list"
  elems :: "real list"

definition expand_dims_val :: "ndarray \<Rightarrow> ndarray" where
  "expand_dims_val a = a\<lparr>dims := 1 # dims a\<rparr>"

text \<open>
  Concatenation along axis 0: every operand has rank at least 1 and the same trailing
  dimensions. In row-major order the elements follow each other.
\<close>

definition concat_val :: "ndarray list \<Rightarrow> ndarray option" where
  "concat_val as =
     (case as of
        [] \<Rightarrow> None
      | a # _ \<Rightarrow>
          if list_all (\<lambda>x. dims x \<noteq> [] \<and> tl (dims x) = tl (dims a)) as
          then Some \<lparr>dims = sum_list (map (\<lambda>x. hd (dims x)) as) # tl (dims a),
                     elems = concat (map elems as)\<rparr>
          else None)"

text \<open>
  The mean over axis 0 of an array of shape \<open>n # rest\<close>: element \<open>j\<close> of the result is
  the mean of the elements \<open>j\<close> of the \<open>n\<close> slices. Not defined on a scalar, on an
  array with no slice, or on an array whose element count does not fit its shape.
\<close>

definition reduce_mean_val :: "ndarray \<Rightarrow> ndarray option" where
  "reduce_mean_val a =
     (case dims a of
        [] \<Rightarrow> None
      | n # rest \<Rightarrow>
          let k = prod_list rest in
          if n = 0 \<or> length (elems a) \<noteq> n * k then None
          else Some \<lparr>dims = rest,
                     elems = map (\<lambda>j. (\<Sum>i\<leftarrow>[0..<n]. elems a ! (i * k + j)) / real n) [0..<k]\<rparr>)"

fun eval :: "(string \<Rightarrow> ndarray) \<Rightarrow> tensor \<Rightarrow> ndarray option" where
  "eval \<rho> (TensorRef n) = Some (\<rho> n)"
| "eval \<rho> (ExpandDims t) = map_option expand_dims_val (eval \<rho> t)"
| "eval \<rho> (Concat ts) = Option.bind (those (map (eval \<rho>) ts)) concat_val"
| "eval \<rho> (ReduceMean t) = Option.bind (eval \<rho> t) reduce_mean_val"

text \<open>Elementwise sum of arrays of one shape, and division by a scalar.\<close>

definition nd_add :: "ndarray \<Rightarrow> ndarray \<Rightarrow> ndarray" where
  "nd_add a b = \<lparr>dims = dims a, elems = map2 (+) (elems a) (elems b)\<rparr>"

definition nd_div :: "ndarray \<Rightarrow> real \<Rightarrow> ndarray" where
  "nd_div a c = \<lparr>dims = dims a, elems = map (\<lambda>x. x / c) (elems a)\<rparr>"

fun nd_sum :: "ndarray list \<Rightarrow> ndarray" where
  "nd_sum [] = \<lparr>dims = [], elems = []\<rparr>"
| "nd_sum (a # as) = foldl nd_add a as"

section \<open>Building the graph\<close>

text \<open>
  The graph under construction, as far as \<^verbatim>\<open>start_train\<close> reads and writes it: the
  collections (\<^verbatim>\<open>tf.get_collection(k)\<close> is the live list of key \<open>k\<close>, empty when the
  key was never used), the reuse flag of the variable scope, and the tower whose device
  and name scope are open.
\<close>

datatype entry =
    HistogramSummary string tensor
  | InputVar itensor
  | ForwardFunc pyobj
  | Entry string

record graph =
  collections :: "string \<Rightarrow> entry list"
  reuse :: bool
  tower :: "nat option"

definition add_to_collection :: "string \<Rightarrow> entry \<Rightarrow> graph \<Rightarrow> graph" where
  "add_to_collection k e g = g\<lparr>collections := (collections g)(k := collections g k @ [e])\<rparr>"

text \<open>\<^verbatim>\<open>tf.GraphKeys.SUMMARIES\<close>\<close>

definition SUMMARIES :: string where
  "SUMMARIES = ''summaries''"

text \<open>\<^verbatim>\<open>tf.histogram_summary(tag, values)\<close> adds a summary to the summaries collection.\<close>

definition histogram_summary :: "string \<Rightarrow> tensor \<Rightarrow> graph \<Rightarrow> graph" where
  "histogram_summary tag values g = add_to_collection SUMMARIES (HistogramSummary tag values) g"

text \<open>
  \<^verbatim>\<open>summary_grads\<close>. The test \<^verbatim>\<open>if grad:\<close> is taken as the author uses it: false on
  \<^verbatim>\<open>None\<close>, true on a tensor.
\<close>

fun summary_grads :: "GradientSet \<Rightarrow> graph \<Rightarrow> graph" where
  "summary_grads [] g = g"
| "summary_grads ((grad, var) # rest) g =
     summary_grads rest
       (case grad of
          None \<Rightarrow> g
        | Some t \<Rightarrow> histogram_summary (op_name var @ ''/gradients'') t g)"

text \<open>
  The collaborators of \<^verbatim>\<open>start_train\<close> that are not in this file. The three keys are
  constants of \<^verbatim>\<open>utils\<close>. The model function and the optimizer add to the graph as
  they like; \<^verbatim>\<open>model_func\<close> stands for
  \<^verbatim>\<open>config.get_model_func(model_inputs, is_training=True)\<close>, \<^verbatim>\<open>compute_gradients\<close> for
  \<^verbatim>\<open>config.optimizer.compute_gradients(cost_var)\<close>, and \<^verbatim>\<open>summary_moving_average\<close>
  returns the name of the operation that maintains the averages.
\<close>

record externals =
  FORWARD_FUNC_KEY :: string
  INPUT_VARS_KEY :: string
  MOVING_SUMMARY_VARS_KEY :: string
  model_func :: "itensor list \<Rightarrow> graph \<Rightarrow> (tensor list \<times> tensor) \<times> graph"
  compute_gradients :: "tensor \<Rightarrow> graph \<Rightarrow> GradientSet \<times> graph"
  summary_moving_average :: "tensor \<Rightarrow> graph \<Rightarrow> string \<times> graph"

subsection \<open>The input queue\<close>

text \<open>
  Static shapes, as TensorFlow's \<^verbatim>\<open>Dimension.merge_with\<close> and \<^verbatim>\<open>TensorShape.merge_with\<close>
  combine them: an unknown dimension or shape gives way to a known one, and two known
  ones must agree. \<open>None\<close> is the \<^verbatim>\<open>ValueError\<close> of two shapes that do not agree.
\<close>

fun merge_dim :: "nat option \<Rightarrow> nat option \<Rightarrow> nat option option" where
  "merge_dim None d = Some d"
| "merge_dim (Some a) None = Some (Some a)"
| "merge_dim (Some a) (Some b) = (if a = b then Some (Some a) else None)"

fun merge_dims :: "nat option list \<Rightarrow> nat option list \<Rightarrow> nat option list option" where
  "merge_dims [] [] = Some []"
| "merge_dims (a # as) (b # bs) =
     (case merge_dim a b of
        None \<Rightarrow> None
      | Some d \<Rightarrow> map_option (\<lambda>ds. d # ds) (merge_dims as bs))"
| "merge_dims _ _ = None"

fun merge_shape :: "tshape \<Rightarrow> tshape \<Rightarrow> tshape option" where
  "merge_shape None s = Some s"
| "merge_shape (Some a) None = Some (Some a)"
| "merge_shape (Some a) (Some b) = map_option Some (merge_dims a b)"

text \<open>\<^verbatim>\<open>s.assert_is_compatible_with(t)\<close> raises unless the two shapes can be merged.\<close>

definition is_compatible_with :: "tshape \<Rightarrow> tshape \<Rightarrow> bool" where
  "is_compatible_with s t = (merge_shape s t \<noteq> None)"

text \<open>
  \<^verbatim>\<open>input_queue.dequeue()\<close> makes one tensor per component of the queue, of the
  component's dtype and shape. It returns the list of these tensors, except for a queue
  of one component: then it returns the tensor itself, not a list.
\<close>

datatype dequeued =
    OneTensor itensor
  | TensorList "itensor list"

definition dequeue :: "queue \<Rightarrow> dequeued" where
  "dequeue q =
     (let ret = map (\<lambda>(d, s). \<lparr>t_name = q_name q @ ''_Dequeue'', t_dtype = d, t_shape = s\<rparr>)
                  (q_components q)
      in if length ret \<noteq> 1 then TensorList ret else OneTensor (ret ! 0))"

text \<open>
  \<^verbatim>\<open>qv.set_shape(s)\<close> merges \<open>s\<close> into the static shape of \<open>qv\<close> and raises when the
  two do not agree.
\<close>

definition set_shape :: "itensor \<Rightarrow> tshape \<Rightarrow> error + itensor" where
  "set_shape qv s =
     (case merge_shape (t_shape qv) s of
        None \<Rightarrow> Inl ValueError
      | Some m \<Rightarrow> Inr (qv\<lparr>t_shape := m\<rparr>))"

text \<open>\<^verbatim>\<open>shape.as_list()\<close> raises when the rank is unknown.\<close>

definition as_list :: "tshape \<Rightarrow> error + nat option list" where
  "as_list s = (case s of None \<Rightarrow> Inl ValueError | Some l \<Rightarrow> Inr l)"

text \<open>
  The loop \<^verbatim>\<open>for qv, v in zip(model_inputs, input_vars)\<close> of \<^verbatim>\<open>get_model_inputs\<close>;
  \<^verbatim>\<open>l[1:]\<close> is \<open>drop 1 l\<close>. The tensors \<^verbatim>\<open>zip\<close> does not reach stay as they are.
\<close>

fun set_shapes :: "bool \<Rightarrow> itensor list \<Rightarrow> itensor list \<Rightarrow> error + itensor list" where
  "set_shapes batched (qv # qvs) (v # vs) =
     bind_err (if batched then set_shape qv (t_shape v)
               else bind_err (as_list (t_shape v)) (\<lambda>l. set_shape qv (Some (drop 1 l))))
       (\<lambda>qv'. bind_err (set_shapes batched qvs vs) (\<lambda>rest. Inr (qv' # rest)))"
| "set_shapes batched qvs vs = Inr qvs"

text \<open>
  \<^verbatim>\<open>get_model_inputs\<close> (lines 121 to 128). \<^verbatim>\<open>zip\<close> iterates over its first argument:
  on the single tensor a queue of one component gives, this raises \<^verbatim>\<open>TypeError\<close>
  (a tensor is not iterable).
\<close>

definition get_model_inputs :: "TrainConfig \<Rightarrow> error + itensor list" where
  "get_model_inputs config =
     (case dequeue (input_queue config) of
        OneTensor qv \<Rightarrow> Inl TypeError
      | TensorList model_inputs \<Rightarrow>
          set_shapes (truthy (batched_model_input config)) model_inputs (inputs config))"

text \<open>
  The two enqueue operations of a queue. Both first convert the values to the dtypes of
  the components (\<^verbatim>\<open>_check_enqueue_dtypes\<close>): values and components are paired up
  with \<^verbatim>\<open>zip\<close>, and a tensor of another dtype than its component raises.
\<close>

datatype enqueue_op =
    Enqueue queue "itensor list"
  | EnqueueMany queue "itensor list"

definition check_enqueue_dtypes :: "queue \<Rightarrow> itensor list \<Rightarrow> error + itensor list" where
  "check_enqueue_dtypes q vals =
     (if list_all (\<lambda>(val, d). t_dtype val = d) (zip vals (q_dtypes q))
      then Inr (map fst (zip vals (q_dtypes q)))
      else Inl ValueError)"

text \<open>
  \<^verbatim>\<open>queue.enqueue(vals)\<close>: one record. The shape of every value must be compatible with
  the shape of its component, and the operation needs at least one value.
\<close>

definition enqueue :: "queue \<Rightarrow> itensor list \<Rightarrow> error + enqueue_op" where
  "enqueue q vals =
     bind_err (check_enqueue_dtypes q vals) (\<lambda>tensors.
     if \<not> list_all (\<lambda>(val, shape). is_compatible_with (t_shape val) shape)
            (zip tensors (q_shapes q)) then Inl ValueError
     else if tensors = [] then Inl ValueError
     else Inr (Enqueue q tensors))"

text \<open>
  \<^verbatim>\<open>queue.enqueue_many(vals)\<close>: every value is a batch of records along its dimension 0.
  The batch dimension is \<^verbatim>\<open>val.get_shape().with_rank_at_least(1)[0]\<close>, which raises on
  a value of rank 0 and is unknown for a value of unknown rank; the batch dimensions of
  all values are merged, and the rest of each shape, \<^verbatim>\<open>val.get_shape()[1:]\<close>, must be
  compatible with the shape of the component.
\<close>

definition batch_dim :: "tshape \<Rightarrow> error + nat option" where
  "batch_dim s =
     (case s of
        None \<Rightarrow> Inr None
      | Some [] \<Rightarrow> Inl ValueError
      | Some (d # ds) \<Rightarrow> Inr d)"

definition shape_tail :: "tshape \<Rightarrow> tshape" where
  "shape_tail s = map_option (drop 1) s"

fun check_batches :: "nat option \<Rightarrow> (itensor \<times> tshape) list \<Rightarrow> error + unit" where
  "check_batches bd [] = Inr ()"
| "check_batches bd ((val, shape) # rest) =
     bind_err (batch_dim (t_shape val)) (\<lambda>d.
     case merge_dim bd d of
       None \<Rightarrow> Inl ValueError
     | Some bd' \<Rightarrow>
         if is_compatible_with (shape_tail (t_shape val)) shape then check_batches bd' rest
         else Inl ValueError)"

definition enqueue_many :: "queue \<Rightarrow> itensor list \<Rightarrow> error + enqueue_op" where
  "enqueue_many q vals =
     bind_err (check_enqueue_dtypes q vals) (\<lambda>tensors.
     case tensors of
       [] \<Rightarrow> Inl IndexError
     | first # _ \<Rightarrow>
         bind_err (batch_dim (t_shape first)) (\<lambda>bd.
         bind_err (check_batches bd (zip tensors (q_shapes q))) (\<lambda>_.
         Inr (EnqueueMany q tensors))))"

text \<open>Lines 130 to 133.\<close>

definition make_enqueue_op :: "TrainConfig \<Rightarrow> error + enqueue_op" where
  "make_enqueue_op config =
     (if truthy (batched_model_input config)
      then enqueue (input_queue config) (inputs config)
      else enqueue_many (input_queue config) (inputs config))"

subsection \<open>Towers\<close>

text \<open>
  One replica: the three statements both branches of \<^verbatim>\<open>start_train\<close> share
  (\<^verbatim>\<open>get_model_inputs()\<close>, the model function, \<^verbatim>\<open>compute_gradients\<close>).
\<close>

definition build_replica ::
    "TrainConfig \<Rightarrow> externals \<Rightarrow> graph \<Rightarrow>
     error + (itensor list \<times> tensor list \<times> tensor \<times> GradientSet \<times> graph)" where
  "build_replica config X g =
     bind_err (get_model_inputs config) (\<lambda>the_model_inputs.
     case model_func X the_model_inputs g of ((the_output_vars, the_cost_var), g1) \<Rightarrow>
     case compute_gradients X the_cost_var g1 of (the_grads, g2) \<Rightarrow>
     Inr (the_model_inputs, the_output_vars, the_cost_var, the_grads, g2))"

definition coll_keys :: "externals \<Rightarrow> string list" where
  "coll_keys X = [SUMMARIES, MOVING_SUMMARY_VARS_KEY X]"

text \<open>
  The state of the loop \<^verbatim>\<open>for i in range(config.nr_tower)\<close>: the graph, the dictionary
  \<^verbatim>\<open>kept_summaries\<close>, the list \<^verbatim>\<open>grads\<close>, and the last values bound to
  \<^verbatim>\<open>model_inputs\<close>, \<^verbatim>\<open>output_vars\<close> and \<^verbatim>\<open>cost_var\<close>.
\<close>

record tower_state =
  ts_graph :: graph
  ts_kept :: "string \<rightharpoonup> entry list"
  ts_grads :: "GradientSet list"
  ts_last :: "(itensor list \<times> tensor list \<times> tensor) option"

definition keep_summaries :: "string list \<Rightarrow> graph \<Rightarrow> (string \<rightharpoonup> entry list) \<Rightarrow> (string \<rightharpoonup> entry list)" where
  "keep_summaries ks g kept = fold (\<lambda>k m. m(k \<mapsto> collections g k)) ks kept"

definition tower_body :: "TrainConfig \<Rightarrow> externals \<Rightarrow> nat \<Rightarrow> tower_state \<Rightarrow> error + tower_state" where
  "tower_body config X i st =
     bind_err (build_replica config X ((ts_graph st)\<lparr>tower := Some i\<rparr>))
       (\<lambda>(the_model_inputs, the_output_vars, the_cost_var, the_grads, g2).
          let g3 = (if i = 0 then g2\<lparr>reuse := True\<rparr> else g2);
              kept = (if i = 0 then keep_summaries (coll_keys X) g3 (ts_kept st) else ts_kept st)
          in Inr \<lparr>ts_graph = g3\<lparr>tower := tower (ts_graph st)\<rparr>,
                  ts_kept = kept,
                  ts_grads = ts_grads st @ [the_grads],
                  ts_last = Some (the_model_inputs, the_output_vars, the_cost_var)\<rparr>)"

fun tower_loop :: "TrainConfig \<Rightarrow> externals \<Rightarrow> nat list \<Rightarrow> tower_state \<Rightarrow> error + tower_state" where
  "tower_loop config X [] st = Inr st"
| "tower_loop config X (i # rest) st =
     bind_err (tower_body config X i st) (tower_loop config X rest)"

text \<open>
  The loop \<^verbatim>\<open>for k in coll_keys\<close> after the towers: \<^verbatim>\<open>del tf.get_collection(k)[:]\<close>
  empties the live list, \<^verbatim>\<open>extend\<close> refills it from \<^verbatim>\<open>kept_summaries[k]\<close>.
\<close>

fun restore_summaries :: "string list \<Rightarrow> (string \<rightharpoonup> entry list) \<Rightarrow> graph \<Rightarrow> error + graph" where
  "restore_summaries [] kept g = Inr g"
| "restore_summaries (k # ks) kept g =
     (let g1 = g\<lparr>collections := (collections g)(k := [])\<rparr> in
      case kept k of
        None \<Rightarrow> Inl (KeyError k)
      | Some es \<Rightarrow>
          restore_summaries ks kept (g1\<lparr>collections := (collections g1)(k := collections g1 k @ es)\<rparr>))"

definition initial_towers :: "graph \<Rightarrow> tower_state" where
  "initial_towers g = \<lparr>ts_graph = g, ts_kept = Map.empty, ts_grads = [], ts_last = None\<rparr>"

text \<open>Lines 141 to 155: the towers are built, then the summaries are restored.\<close>

definition build_towers :: "TrainConfig \<Rightarrow> externals \<Rightarrow> graph \<Rightarrow> error + tower_state" where
  "build_towers config X g =
     bind_err (tower_loop config X [0..<nat (nr_tower config)] (initial_towers g)) (\<lambda>st.
     bind_err (restore_summaries (coll_keys X) (ts_kept st) (ts_graph st)) (\<lambda>g1.
     Inr (st\<lparr>ts_graph := g1\<rparr>)))"

text \<open>
  The branch \<^verbatim>\<open>if config.nr_tower > 1: ... else: ...\<close>: the replica whose tensors the
  training loop fetches, the gradients to apply, and the graph.
\<close>

definition gradients_to_update ::
    "TrainConfig \<Rightarrow> externals \<Rightarrow> graph \<Rightarrow>
     error + (itensor list \<times> tensor list \<times> tensor \<times> GradientSet \<times> graph)" where
  "gradients_to_update config X g =
     (if nr_tower config > 1 then
        bind_err (build_towers config X g) (\<lambda>st.
        bind_err (average_gradients (ts_grads st)) (\<lambda>the_grads.
        case ts_last st of
          None \<Rightarrow> Inl NameError
        | Some (the_model_inputs, the_output_vars, the_cost_var) \<Rightarrow>
            Inr (the_model_inputs, the_output_vars, the_cost_var, the_grads, ts_graph st)))
      else build_replica config X g)"

text \<open>What a training step can fetch: the apply operation, or a tensor.\<close>

datatype fetch =
    ApplyGradients GradientSet string
  | FetchTensor tensor
  | FetchInput itensor

text \<open>
  What the construction part of \<^verbatim>\<open>start_train\<close> (lines 113 to 165) leaves for the
  training loop. The apply operation \<^verbatim>\<open>train_op\<close> is
  \<^verbatim>\<open>apply_gradients(grads, ...)\<close> under the control dependency on the operation
  that maintains the averages.
\<close>

record built =
  b_enqueue_op :: enqueue_op
  b_grads :: GradientSet
  b_train_op :: fetch
  b_cost_var :: tensor
  b_output_vars :: "tensor list"
  b_model_inputs :: "itensor list"
  b_graph :: graph

text \<open>
  Lines 117 to 119: the model function and the input variables are put into their
  collections.
\<close>

definition register_model :: "TrainConfig \<Rightarrow> externals \<Rightarrow> graph \<Rightarrow> graph" where
  "register_model config X g0 =
     fold (\<lambda>v. add_to_collection (INPUT_VARS_KEY X) (InputVar v)) (inputs config)
       (add_to_collection (FORWARD_FUNC_KEY X) (ForwardFunc (get_model_func config)) g0)"

definition build_graph :: "TrainConfig \<Rightarrow> externals \<Rightarrow> graph \<Rightarrow> error + built" where
  "build_graph config X g0 =
     (let g1 = register_model config X g0
      in bind_err (make_enqueue_op config) (\<lambda>the_enqueue_op.
         bind_err (gradients_to_update config X g1)
           (\<lambda>(the_model_inputs, the_output_vars, the_cost_var, the_grads, g3).
              let g4 = summary_grads the_grads g3 in
              case summary_moving_average X the_cost_var g4 of (avg_maintain_op, g5) \<Rightarrow>
              Inr \<lparr>b_enqueue_op = the_enqueue_op,
                   b_grads = the_grads,
                   b_train_op = ApplyGradients the_grads avg_maintain_op,
                   b_cost_var = the_cost_var,
                   b_output_vars = the_output_vars,
                   b_model_inputs = the_model_inputs,
                   b_graph = g5\<rparr>)))"

section \<open>The training loop\<close>

text \<open>
  The running program, as far as \<^verbatim>\<open>start_train\<close> uses it. The world \<open>'w\<close> holds the
  session, the queue, the coordinator's flag and the callbacks' state; the feeder thread
  works inside these operations. \<^verbatim>\<open>open_session\<close> is lines 168 and 169 (the session is
  made and initialised), \<^verbatim>\<open>start_threads\<close> lines 171 to 177 (the coordinator, the
  enqueue thread and the queue runners). \<^verbatim>\<open>sess_run\<close> is one execution: it gives the
  value of every fetched tensor in that execution. Every operation but the poll of the
  coordinator can raise.
\<close>

record ('w, 'r) runtime =
  open_session :: "pyobj \<Rightarrow> pyobj \<Rightarrow> 'w \<Rightarrow> error option \<times> 'w"
  start_threads :: "enqueue_op \<Rightarrow> pyobj \<Rightarrow> queue \<Rightarrow> 'w \<Rightarrow> error option \<times> 'w"
  should_stop :: "'w \<Rightarrow> bool \<times> 'w"
  sess_run :: "fetch list \<Rightarrow> 'w \<Rightarrow> (error + (fetch \<Rightarrow> 'r)) \<times> 'w"
  before_train :: "'w \<Rightarrow> error option \<times> 'w"
  trigger_step :: "'r list \<Rightarrow> 'r list \<Rightarrow> 'r \<Rightarrow> 'w \<Rightarrow> error option \<times> 'w"
  trigger_epoch :: "'w \<Rightarrow> error option \<times> 'w"

text \<open>
  What \<^verbatim>\<open>start_train\<close> does, in order. A call of a callback, the opening of the session
  and the start of the threads are recorded when they are made, a poll with its answer,
  and \<open>Run f\<close> is an execution \<^verbatim>\<open>sess.run(f)\<close> that returned its results. \<open>Raise e\<close> says
  that the operation just attempted raised \<open>e\<close>: the call recorded before it, or the
  execution after a poll.
\<close>

datatype 'r event =
    OpenSession
  | StartThreads
  | BeforeTrain
  | Poll bool
  | is_Run: Run "fetch list"
  | is_TriggerStep: TriggerStep "'r list" "'r list" 'r
  | TriggerEpoch
  | Raise error

text \<open>
  How a block of statements ends: it runs to its end, it leaves the function through
  \<^verbatim>\<open>return\<close>, or an exception leaves it.
\<close>

datatype exit = Completed | Returned | Failed error

text \<open>Python's slices \<^verbatim>\<open>xs[i:j]\<close> and \<^verbatim>\<open>xs[i:]\<close>.\<close>

definition slice_bound :: "int \<Rightarrow> nat \<Rightarrow> nat" where
  "slice_bound i n = (if i < 0 then nat (max (i + int n) 0) else min (nat i) n)"

definition py_slice :: "int \<Rightarrow> int \<Rightarrow> 'a list \<Rightarrow> 'a list" where
  "py_slice i j xs =
     (let lo = slice_bound i (length xs); hi = slice_bound j (length xs)
      in take (hi - lo) (drop lo xs))"

definition py_slice_from :: "int \<Rightarrow> 'a list \<Rightarrow> 'a list" where
  "py_slice_from i xs = drop (slice_bound i (length xs)) xs"

text \<open>\<^verbatim>\<open>[train_op, cost_var] + output_vars + model_inputs\<close>\<close>

definition fetch_list :: "built \<Rightarrow> fetch list" where
  "fetch_list b =
     [b_train_op b, FetchTensor (b_cost_var b)] @ map FetchTensor (b_output_vars b)
       @ map FetchInput (b_model_inputs b)"

text \<open>
  Lines 191 to 196, one step. \<^verbatim>\<open>results[1]\<close> is in range: the list of fetches starts
  with the two entries \<^verbatim>\<open>train_op\<close> and \<^verbatim>\<open>cost_var\<close>.
\<close>

definition run_step :: "('w, 'r) runtime \<Rightarrow> built \<Rightarrow> 'w \<Rightarrow> 'r event list \<times> exit \<times> 'w" where
  "run_step R b w =
     (let fetches = fetch_list b in
      case sess_run R fetches w of
        (Inl e, w1) \<Rightarrow> ([Raise e], Failed e, w1)
      | (Inr val, w1) \<Rightarrow>
          let results = map val fetches;
              cost = results ! 1;
              outputs = py_slice 2 (2 + int (length (b_output_vars b))) results;
              step_inputs = py_slice_from (- int (length (b_model_inputs b))) results
          in case trigger_step R step_inputs outputs cost w1 of
               (None, w2) \<Rightarrow> ([Run fetches, TriggerStep step_inputs outputs cost], Completed, w2)
             | (Some e, w2) \<Rightarrow>
                 ([Run fetches, TriggerStep step_inputs outputs cost, Raise e], Failed e, w2))"

text \<open>
  The loop over the steps of one epoch (lines 185 to 196): the coordinator is polled,
  and the function returns when it signals stop.
\<close>

fun step_loop ::
    "('w, 'r) runtime \<Rightarrow> built \<Rightarrow> int list \<Rightarrow> 'w \<Rightarrow> 'r event list \<times> exit \<times> 'w" where
  "step_loop R b [] w = ([], Completed, w)"
| "step_loop R b (step # steps) w =
     (case should_stop R w of (stop, w1) \<Rightarrow>
      if stop then ([Poll True], Returned, w1)
      else
        case run_step R b w1 of (ev, x, w2) \<Rightarrow>
        if x \<noteq> Completed then (Poll False # ev, x, w2)
        else
          case step_loop R b steps w2 of (ev', x', w3) \<Rightarrow>
          (Poll False # ev @ ev', x', w3))"

text \<open>The loop over the epochs (lines 183 to 199).\<close>

fun epoch_loop ::
    "('w, 'r) runtime \<Rightarrow> built \<Rightarrow> int \<Rightarrow> int list \<Rightarrow> 'w \<Rightarrow> 'r event list \<times> exit \<times> 'w" where
  "epoch_loop R b n [] w = ([], Completed, w)"
| "epoch_loop R b n (epoch # epochs) w =
     (case step_loop R b [0..n - 1] w of (ev, x, w1) \<Rightarrow>
      if x \<noteq> Completed then (ev, x, w1)
      else
        case trigger_epoch R w1 of
          (Some e, w2) \<Rightarrow> (ev @ [TriggerEpoch, Raise e], Failed e, w2)
        | (None, w2) \<Rightarrow>
            (case epoch_loop R b n epochs w2 of (ev', x', w3) \<Rightarrow>
             (ev @ TriggerEpoch # ev', x', w3)))"

text \<open>
  Lines 182 to 199: \<^verbatim>\<open>xrange(1, max_epoch)\<close> is \<open>[1..max_epoch - 1]\<close>, and
  \<^verbatim>\<open>tqdm.trange(step_per_epoch)\<close> is \<open>[0..step_per_epoch - 1]\<close>.
\<close>

definition train_loop ::
    "('w, 'r) runtime \<Rightarrow> TrainConfig \<Rightarrow> built \<Rightarrow> 'w \<Rightarrow> 'r event list \<times> exit \<times> 'w" where
  "train_loop R config b w =
     (case before_train R w of
        (Some e, w1) \<Rightarrow> ([BeforeTrain, Raise e], Failed e, w1)
      | (None, w1) \<Rightarrow>
          (case epoch_loop R b (step_per_epoch config) [1..max_epoch config - 1] w1 of
             (ev, x, w2) \<Rightarrow> (BeforeTrain # ev, x, w2)))"

text \<open>
  \<^verbatim>\<open>start_train(config)\<close>: the graph is built, the session is opened, the threads are
  started, and the loop runs. What \<^verbatim>\<open>coordinator_guard\<close> does when the block is left is
  not part of this file.
\<close>

definition start_train ::
    "('w, 'r) runtime \<Rightarrow> externals \<Rightarrow> TrainConfig \<Rightarrow> graph \<Rightarrow> 'w \<Rightarrow>
     'r event list \<times> exit \<times> 'w" where
  "start_train R X config g w =
     (case build_graph config X g of
        Inl e \<Rightarrow> ([], Failed e, w)
      | Inr b \<Rightarrow>
          (case open_session R (session_config config) (session_init config) w of
             (Some e, w1) \<Rightarrow> ([OpenSession, Raise e], Failed e, w1)
           | (None, w1) \<Rightarrow>
               (case start_threads R (b_enqueue_op b) (dataset config) (input_queue config) w1 of
                  (Some e, w2) \<Rightarrow> ([OpenSession, StartThreads, Raise e], Failed e, w2)
                | (None, w2) \<Rightarrow>
                    (case train_loop R config b w2 of (ev, x, w3) \<Rightarrow>
                     (OpenSession # StartThreads # ev, x, w3)))))"

text \<open>
  A training script hands the configuration it constructs to \<^verbatim>\<open>start_train\<close>:
  \<^verbatim>\<open>start_train(TrainConfig(**kwargs))\<close>. Python evaluates the argument first, so
  \<^verbatim>\<open>start_train\<close> is entered only when the constructor has returned.
\<close>

definition construct_and_train ::
    "('w, 'r) runtime \<Rightarrow> externals \<Rightarrow> kwargs \<Rightarrow> graph \<Rightarrow> 'w \<Rightarrow> 'r event list \<times> exit \<times> 'w" where
  "construct_and_train R X kwargs0 g w =
     (case TrainConfig_init kwargs0 of
        Inl e \<Rightarrow> ([], Failed e, w)
      | Inr config \<Rightarrow> start_train R X config g w)"

text \<open>What a trace says about the run.\<close>

definition steps_executed :: "'r event list \<Rightarrow> nat" where
  "steps_executed tr = length (filter is_Run tr)"

definition epochs_triggered :: "'r event list \<Rightarrow> nat" where
  "epochs_triggered tr = length (filter (\<lambda>e. e = TriggerEpoch) tr)"

text \<open>
  The run that a trace of the loop describes, step by step in the world: every event is
  performed on the world the events before it left. A poll must give the recorded
  answer, and nothing follows a poll that signalled stop or an exception. A step is
  one execution of the list \<^verbatim>\<open>[train_op, cost_var] + output_vars + model_inputs\<close>,
  and \<^verbatim>\<open>trigger_step\<close> called, in the world this execution left, with the values the
  execution gave to the model inputs, to the output tensors and to the cost. The
  result is the world after the last event, or \<open>None\<close> when the trace is not such a run.
\<close>

fun replay :: "('w, 'r) runtime \<Rightarrow> built \<Rightarrow> 'r event list \<Rightarrow> 'w \<Rightarrow> 'w option" where
  "replay R b [] w = Some w"
| "replay R b (BeforeTrain # tr) w =
     (case before_train R w of
        (None, w1) \<Rightarrow> replay R b tr w1
      | (Some e, w1) \<Rightarrow> if tr = [Raise e] then Some w1 else None)"
| "replay R b (TriggerEpoch # tr) w =
     (case trigger_epoch R w of
        (None, w1) \<Rightarrow> replay R b tr w1
      | (Some e, w1) \<Rightarrow> if tr = [Raise e] then Some w1 else None)"
| "replay R b (Poll True # tr) w =
     (case should_stop R w of (stop, w1) \<Rightarrow> if stop \<and> tr = [] then Some w1 else None)"
| "replay R b (Poll False # Raise e # tr) w =
     (case should_stop R w of (stop, w1) \<Rightarrow>
      if stop then None
      else
        case sess_run R (b_train_op b # FetchTensor (b_cost_var b) #
                           map FetchTensor (b_output_vars b) @ map FetchInput (b_model_inputs b)) w1 of
          (Inl e', w2) \<Rightarrow> if e' = e \<and> tr = [] then Some w2 else None
        | (Inr val, w2) \<Rightarrow> None)"
| "replay R b (Poll False # Run f # TriggerStep step_inputs outputs cost # tr) w =
     (case should_stop R w of (stop, w1) \<Rightarrow>
      if stop then None
      else
        case sess_run R f w1 of
          (Inl e, w2) \<Rightarrow> None
        | (Inr val, w2) \<Rightarrow>
            if f = b_train_op b # FetchTensor (b_cost_var b) #
                     map FetchTensor (b_output_vars b) @ map FetchInput (b_model_inputs b) \<and>
               step_inputs = map (\<lambda>t. val (FetchInput t)) (b_model_inputs b) \<and>
               outputs = map (\<lambda>t. val (FetchTensor t)) (b_output_vars b) \<and>
               cost = val (FetchTensor (b_cost_var b))
            then
              case trigger_step R step_inputs outputs cost w2 of
                (None, w3) \<Rightarrow> replay R b tr w3
              | (Some e, w3) \<Rightarrow> if tr = [Raise e] then Some w3 else None
            else None)"
| "replay R b tr w = None"

text \<open>The configuration the constructor builds from \<open>base_kwargs\<close>.\<close>

definition base_config :: TrainConfig where
  "base_config =
     \<lparr>dataset = PDataFlow 468, optimizer = POptimizer ''AdamOptimizer'',
      callbacks = PCallbacks ''callbacks'', session_config = PConfigProto ''default'',
      session_init = PSessionInit ''NewSession'', inputs = mnist_inputs,
      input_queue = \<lparr>q_class = FIFO, q_capacity = 5,
                     q_components = [(DT_FLOAT, None), (DT_INT32, None)],
                     q_name = ''input_queue''\<rparr>,
      get_model_func = PFunction ''get_model'', batched_model_input = PBool True,
      step_per_epoch = 468, max_epoch = 100, nr_tower = 1\<rparr>"

text \<open>The names \<^verbatim>\<open>__init__\<close> pops from its keyword arguments.\<close>

definition known_keys :: "string set" where
  "known_keys = {''dataset'', ''optimizer'', ''callbacks'', ''session_config'', ''session_init'',
     ''inputs'', ''input_queue'', ''get_model_func'', ''batched_model_input'',
     ''step_per_epoch'', ''max_epoch'', ''nr_tower''}"



text \<open>
  A trace is well formed when every step is the triple of a poll that did not signal
  stop, one execution and the call of \<^verbatim>\<open>trigger_step\<close>, and a poll that signalled
  stop or an exception is the last event.
\<close>

fun steps_ok :: "'r event list \<Rightarrow> bool" where
  "steps_ok [] = True"
| "steps_ok (Poll True # rest) = (rest = [])"
| "steps_ok (Poll False # Run f # TriggerStep i out c # rest) = steps_ok rest"
| "steps_ok (Poll False # Raise e # rest) = (rest = [])"
| "steps_ok (Poll False # rest) = False"
| "steps_ok (Run f # rest) = False"
| "steps_ok (TriggerStep i out c # rest) = False"
| "steps_ok (Raise e # rest) = (rest = [])"
| "steps_ok (OpenSession # rest) = steps_ok rest"
| "steps_ok (StartThreads # rest) = steps_ok rest"
| "steps_ok (BeforeTrain # rest) = steps_ok rest"
| "steps_ok (TriggerEpoch # rest) = steps_ok rest"

text \<open>
  A small run: three steps per epoch, \<^verbatim>\<open>max_epoch = 2\<close>. The world of
  \<open>counting_runtime\<close> counts the executions and the calls of the callbacks; the
  coordinator signals stop from execution \<open>stop_at\<close> on, execution \<open>fail_at\<close> raises, and
  the value of a fetch is the fetch itself with the number of the execution.
\<close>

definition demo_config :: TrainConfig where
  "demo_config = base_config\<lparr>step_per_epoch := 3, max_epoch := 2\<rparr>"

definition demo_built :: built where
  "demo_built =
     \<lparr>b_enqueue_op = Enqueue (input_queue base_config) mnist_inputs,
      b_grads = [(Some (TensorRef ''grad_w''), Variable ''w'')],
      b_train_op = ApplyGradients [(Some (TensorRef ''grad_w''), Variable ''w'')] ''avg'',
      b_cost_var = TensorRef ''cost'',
      b_output_vars = [TensorRef ''prob''],
      b_model_inputs = mnist_inputs,
      b_graph = \<lparr>collections = (\<lambda>k. []), reuse = False, tower = None\<rparr>\<rparr>"

definition counting_runtime :: "nat \<Rightarrow> nat \<Rightarrow> (nat \<times> nat, fetch \<times> nat) runtime" where
  "counting_runtime stop_at fail_at =
     \<lparr>open_session = (\<lambda>session_config session_init w. (None, w)),
      start_threads = (\<lambda>enqueue_op dataset queue w. (None, w)),
      should_stop = (\<lambda>w. (stop_at \<le> fst w, w)),
      sess_run = (\<lambda>fetches w.
         (if fst w = fail_at then Inl (OtherError ''OutOfRangeError'')
          else Inr (\<lambda>f. (f, fst w)),
          (Suc (fst w), snd w))),
      before_train = (\<lambda>w. (None, (fst w, Suc (snd w)))),
      trigger_step = (\<lambda>step_inputs outputs cost w. (None, (fst w, Suc (snd w)))),
      trigger_epoch = (\<lambda>w. (None, (fst w, Suc (snd w))))\<rparr>"

text \<open>
  Collaborators for small runs: a model function that adds one summary per tower, an
  optimizer that returns one gradient named after the tower, and the graph before
  \<^verbatim>\<open>start_train\<close>.
\<close>

definition demo_externals :: externals where
  "demo_externals =
     \<lparr>FORWARD_FUNC_KEY = ''FORWARD_FUNC'',
      INPUT_VARS_KEY = ''INPUT_VARIABLES'',
      MOVING_SUMMARY_VARS_KEY = ''MOVING_SUMMARY_VARIABLES'',
      model_func = (\<lambda>model_inputs g.
         (([TensorRef ''prob''], TensorRef ''cost''),
          add_to_collection SUMMARIES
            (Entry (case tower g of Some (Suc _) \<Rightarrow> ''tower1/activations'' | _ \<Rightarrow> ''tower0/activations'')) g)),
      compute_gradients = (\<lambda>cost g.
         ([(Some (TensorRef (case tower g of Some (Suc _) \<Rightarrow> ''tower1/grad_w'' | _ \<Rightarrow> ''tower0/grad_w'')),
            Variable ''w'')], g)),
      summary_moving_average = (\<lambda>cost g.
         (''avg_maintain_op'', add_to_collection ''MOVING_SUMMARY_VARIABLES'' (Entry ''cost_avg'') g))\<rparr>"

definition empty_graph :: graph where
  "empty_graph = \<lparr>collections = (\<lambda>k. []), reuse = False, tower = None\<rparr>"

text \<open>
  What \<^verbatim>\<open>get_model_inputs\<close> returns for \<open>base_config\<close>, with
  \<^verbatim>\<open>batched_model_input\<close> true and false, and an optimizer for a model with a
  trainable variable that the loss does not depend on.
\<close>

definition demo_model_inputs :: "itensor list" where
  "demo_model_inputs =
     [\<lparr>t_name = ''input_queue_Dequeue'', t_dtype = DT_FLOAT,
       t_shape = Some [Some 128, Some 28, Some 28]\<rparr>,
      \<lparr>t_name = ''input_queue_Dequeue'', t_dtype = DT_INT32, t_shape = Some [Some 128]\<rparr>]"

definition demo_single_inputs :: "itensor list" where
  "demo_single_inputs =
     [\<lparr>t_name = ''input_queue_Dequeue'', t_dtype = DT_FLOAT, t_shape = Some [Some 28, Some 28]\<rparr>,
      \<lparr>t_name = ''input_queue_Dequeue'', t_dtype = DT_INT32, t_shape = Some []\<rparr>]"

definition unused_variable_externals :: externals where
  "unused_variable_externals =
     demo_externals\<lparr>compute_gradients := (\<lambda>cost g.
        ([(Some (TensorRef ''grad_w''), Variable ''w''), (None, Variable ''unused'')], g))\<rparr>"

text \<open>
  Two towers with one variable, and the values of their gradients in one execution.
\<close>

definition demo_tower_grads :: "GradientSet list" where
  "demo_tower_grads =
     [[(Some (TensorRef ''tower0/grad_w''), Variable ''w'')],
      [(Some (TensorRef ''tower1/grad_w''), Variable ''w'')]]"

definition demo_values :: "string \<Rightarrow> ndarray" where
  "demo_values n =
     (if n = ''tower0/grad_w'' then \<lparr>dims = [2], elems = [1, 2]\<rparr>
      else \<lparr>dims = [2], elems = [3, 4]\<rparr>)"

section \<open>Properties of the configuration\<close>

lemma bind_err_Inr: "bind_err m f = Inr y \<longleftrightarrow> (\<exists>x. m = Inr x \<and> f x = Inr y)"
  by (cases m) (simp_all add: bind_err_def)

lemma bind_err_Inr_simp [simp]: "bind_err (Inr x) f = f x"
  by (simp add: bind_err_def)

lemma bind_err_Inl_simp [simp]: "bind_err (Inl e) f = Inl e"
  by (simp add: bind_err_def)

lemma map_of_remove_key: "map_of (remove_key k kw) k' = (if k' = k then None else map_of kw k')"
  by (induction kw) (auto simp: remove_key_def)

lemma remove_key_absent: "map_of kw k = None \<Longrightarrow> remove_key k kw = kw"
  by (induction kw) (auto simp: remove_key_def split: if_splits)

lemma keys_remove_key_subset:
  "fst ` set (remove_key k kw) \<subseteq> S \<longleftrightarrow> fst ` set kw \<subseteq> insert k S"
  by (auto simp: remove_key_def)

lemma remove_key_Nil_iff: "remove_key k kw = [] \<longleftrightarrow> fst ` set kw \<subseteq> {k}"
  by (auto simp: remove_key_def filter_empty_conv)

lemma pop_default_alt:
  "pop_default k d kw = (case map_of kw k of None \<Rightarrow> d | Some x \<Rightarrow> x, remove_key k kw)"
  by (simp add: pop_default_def remove_key_absent split: option.splits)

lemma pop_Inr:
  "pop k kw = Inr (v, kw') \<longleftrightarrow> map_of kw k = Some v \<and> kw' = remove_key k kw"
  by (auto simp: pop_def split: option.splits)

lemma bind_assert_type_Inr:
  "bind_err (assert_type v tp) f = Inr c \<longleftrightarrow> isinstance v tp \<and> f () = Inr c"
  by (simp add: assert_type_def bind_err_def)

lemma if_Inl_Inr: "((if b then Inl e else m) = Inr c) \<longleftrightarrow> (\<not> b \<and> m = Inr c)"
  by simp

lemma Inr_eq_flip: "(Inr r = (Inr c :: error + 'a)) \<longleftrightarrow> (c = r)"
  by auto

lemmas init_steps =
  prod.case bind_assert_type_Inr bind_err_Inr if_Inl_Inr split_paired_Ex Inr_eq_flip

text \<open>What a successful construction says about its arguments and its result.\<close>

lemma init_Inr_all:
  "\<forall>c. TrainConfig_init kw = Inr c \<longrightarrow>
    (\<exists>v. map_of kw ''inputs'' = Some v \<and> as_tensor_list v = Inr (inputs c)) \<and>
     (\<exists>dq. FIFOQueue 5 (map t_dtype (inputs c)) ''input_queue'' = Inr dq \<and>
           as_queue (case map_of kw ''input_queue'' of None \<Rightarrow> PQueue dq | Some v \<Rightarrow> v)
             = Inr (input_queue c)) \<and>
     q_dtypes (input_queue c) = map t_dtype (inputs c) \<and>
     0 < step_per_epoch c \<and> 0 < max_epoch c \<and>
     py_int (case map_of kw ''nr_tower'' of None \<Rightarrow> PInt 1 | Some v \<Rightarrow> v) = Inr (nr_tower c) \<and>
     py_int (case map_of kw ''max_epoch'' of None \<Rightarrow> PInt 100 | Some v \<Rightarrow> v)
       = Inr (max_epoch c) \<and>
     (\<exists>d. map_of kw ''dataset'' = Some d \<and>
          bind_err (dataset_size d)
            (\<lambda>size. py_int (case map_of kw ''step_per_epoch'' of None \<Rightarrow> size | Some v \<Rightarrow> v))
          = Inr (step_per_epoch c))"
  unfolding TrainConfig_init_def pop_default_alt prod.case
  apply (intro allI impI)
  apply (simp only: init_steps)
  apply (elim exE conjE)?
  apply hypsubst
  apply (simp add: pop_Inr map_of_remove_key bind_err_Inr)
  done

lemmas init_Inr = init_Inr_all[rule_format]

lemma init_Inr_keys:
  assumes "TrainConfig_init kw = Inr c"
  shows "fst ` set kw \<subseteq> known_keys"
  using assms unfolding TrainConfig_init_def pop_default_alt prod.case
  apply (simp only: init_steps)
  apply (elim exE conjE)?
  apply (simp add: pop_Inr remove_key_Nil_iff keys_remove_key_subset)
  apply (elim exE conjE)?
  apply (unfold known_keys_def)
  apply blast
  done

lemma init_fails_unless_Inr:
  assumes "\<And>c. TrainConfig_init kw = Inr c \<Longrightarrow> False"
  shows "\<exists>e. TrainConfig_init kw = Inl e"
  using assms by (cases "TrainConfig_init kw") auto

lemmas init_eval = TrainConfig_init_def pop_def pop_default_def remove_key_def
  assert_type_def isinstance_def as_tensor_list_def as_queue_def dataset_size_def FIFOQueue_def
  q_dtypes_def
  mnist_inputs_def base_kwargs_def base_config_def

lemma init_base: "TrainConfig_init base_kwargs = Inr base_config"
  by (simp add: init_eval)



text \<open>
  C5, as the code has it. The constructor raises when \<^verbatim>\<open>step_per_epoch\<close> or
  \<^verbatim>\<open>max_epoch\<close> is not positive and when an argument it does not know is supplied,
  so every constructed configuration has both positive. When the constructor raises,
  \<^verbatim>\<open>start_train\<close> is not entered: no session is opened, no thread is started, no
  callback is called, and the world is as it was. The number of towers is converted with
  \<^verbatim>\<open>int\<close> and not checked.
\<close>

theorem TrainConfig_validation:
  "(TrainConfig_init kw = Inr c \<longrightarrow>
      0 < step_per_epoch c \<and> 0 < max_epoch c \<and> fst ` set kw \<subseteq> known_keys) \<and>
   (map_of kw ''step_per_epoch'' = Some (PInt s) \<and> s \<le> 0 \<longrightarrow>
      (\<exists>e. TrainConfig_init kw = Inl e)) \<and>
   (map_of kw ''max_epoch'' = Some (PInt m) \<and> m \<le> 0 \<longrightarrow>
      (\<exists>e. TrainConfig_init kw = Inl e)) \<and>
   (map_of kw k = Some v \<and> k \<notin> known_keys \<longrightarrow> (\<exists>e. TrainConfig_init kw = Inl e)) \<and>
   (TrainConfig_init kw = Inl e \<longrightarrow> construct_and_train R X kw g w = ([], Failed e, w))"
proof (intro conjI impI)
  assume "TrainConfig_init kw = Inl e"
  then show "construct_and_train R X kw g w = ([], Failed e, w)"
    by (simp add: construct_and_train_def)
next
  assume ok: "TrainConfig_init kw = Inr c"
  from init_Inr[OF ok] show "0 < step_per_epoch c" "0 < max_epoch c" by simp_all
  from init_Inr_keys[OF ok] show "fst ` set kw \<subseteq> known_keys" .
next
  assume h: "map_of kw ''step_per_epoch'' = Some (PInt s) \<and> s \<le> 0"
  show "\<exists>e. TrainConfig_init kw = Inl e"
  proof (rule init_fails_unless_Inr)
    fix c assume "TrainConfig_init kw = Inr c"
    from init_Inr[OF this] h show False by (auto simp: bind_err_Inr)
  qed
next
  assume h: "map_of kw ''max_epoch'' = Some (PInt m) \<and> m \<le> 0"
  show "\<exists>e. TrainConfig_init kw = Inl e"
  proof (rule init_fails_unless_Inr)
    fix c assume "TrainConfig_init kw = Inr c"
    from init_Inr[OF this] h show False by auto
  qed
next
  assume h: "map_of kw k = Some v \<and> k \<notin> known_keys"
  show "\<exists>e. TrainConfig_init kw = Inl e"
  proof (rule init_fails_unless_Inr)
    fix c assume ok: "TrainConfig_init kw = Inr c"
    from h have "k \<in> fst ` set kw" by (force dest: map_of_SomeD)
    with init_Inr_keys[OF ok] h show False by auto
  qed
qed

theorem TrainConfig_validation_witness:
  "0 < step_per_epoch base_config \<and> 0 < max_epoch base_config \<and>
   fst ` set base_kwargs \<subseteq> known_keys \<and>
   TrainConfig_init ((''step_per_epoch'', PInt 0) # base_kwargs) = Inl AssertionError \<and>
   TrainConfig_init ((''max_epoch'', PInt (- 1)) # base_kwargs) = Inl AssertionError \<and>
   TrainConfig_init ((''learning_rate'', PInt 1) # base_kwargs) = Inl AssertionError \<and>
   construct_and_train (counting_runtime 100 100) demo_externals
     ((''step_per_epoch'', PInt 0) # base_kwargs) empty_graph (0, 0)
     = ([], Failed AssertionError, (0, 0))"
proof -
  have a: "TrainConfig_init ((''step_per_epoch'', PInt 0) # base_kwargs) = Inl AssertionError"
    by (simp add: init_eval)
  from TrainConfig_validation[of "(''step_per_epoch'', PInt 0) # base_kwargs" _ _ _ _ _
         AssertionError "counting_runtime 100 100" demo_externals empty_graph "(0, 0)"] a
  have d: "construct_and_train (counting_runtime 100 100) demo_externals
     ((''step_per_epoch'', PInt 0) # base_kwargs) empty_graph (0, 0)
     = ([], Failed AssertionError, (0, 0))"
    by blast
  have b: "TrainConfig_init ((''max_epoch'', PInt (- 1)) # base_kwargs) = Inl AssertionError"
    by (simp add: init_eval)
  have c: "TrainConfig_init ((''learning_rate'', PInt 1) # base_kwargs) = Inl AssertionError"
    by (simp add: init_eval)
  from TrainConfig_validation[of base_kwargs base_config] init_base a b c d
  show ?thesis by simp
qed

text \<open>
  The invariant \<^verbatim>\<open>nr_tower >= 1\<close> of the specification fails: a configuration with no
  tower at all is constructed.
\<close>

theorem TrainConfig_tower_count_counterexample:
  "TrainConfig_init ((''nr_tower'', PInt 0) # base_kwargs) = Inr (base_config\<lparr>nr_tower := 0\<rparr>) \<and>
   \<not> 1 \<le> nr_tower (base_config\<lparr>nr_tower := 0\<rparr>)"
  by (simp add: init_eval)

section \<open>Properties of the training loop\<close>

lemma run_step_eq:
  assumes "b_model_inputs b \<noteq> []"
  shows "run_step R b w =
     (case sess_run R (fetch_list b) w of
        (Inl e, w1) \<Rightarrow> ([Raise e], Failed e, w1)
      | (Inr val, w1) \<Rightarrow>
          let ins = map (\<lambda>t. val (FetchInput t)) (b_model_inputs b);
              outs = map (\<lambda>t. val (FetchTensor t)) (b_output_vars b);
              cost = val (FetchTensor (b_cost_var b))
          in case trigger_step R ins outs cost w1 of
               (None, w2) \<Rightarrow> ([Run (fetch_list b), TriggerStep ins outs cost], Completed, w2)
             | (Some e, w2) \<Rightarrow>
                 ([Run (fetch_list b), TriggerStep ins outs cost, Raise e], Failed e, w2))"
proof (cases "sess_run R (fetch_list b) w")
  case (Pair r w1)
  show ?thesis
  proof (cases r)
    case (Inl e)
    with Pair show ?thesis by (simp add: run_step_def)
  next
    case (Inr val)
    let ?res = "map val (fetch_list b)"
    have len: "length ?res = 2 + length (b_output_vars b) + length (b_model_inputs b)"
      by (simp add: fetch_list_def)
    have c: "?res ! 1 = val (FetchTensor (b_cost_var b))"
      by (simp add: fetch_list_def)
    have o: "py_slice 2 (2 + int (length (b_output_vars b))) ?res
               = map (\<lambda>t. val (FetchTensor t)) (b_output_vars b)"
      by (simp add: py_slice_def slice_bound_def fetch_list_def comp_def Let_def)
    have "0 < length (b_model_inputs b)" using assms by simp
    then have sb: "slice_bound (- int (length (b_model_inputs b))) (length ?res)
                     = 2 + length (b_output_vars b)"
      unfolding len by (simp add: slice_bound_def)
    have i: "py_slice_from (- int (length (b_model_inputs b))) ?res
               = map (\<lambda>t. val (FetchInput t)) (b_model_inputs b)"
      unfolding py_slice_from_def sb by (simp add: fetch_list_def comp_def)
    show ?thesis
      unfolding run_step_def Let_def Pair Inr prod.case sum.case c o i ..
  qed
qed

lemma run_step_cases:
  obtains (run_raises) e w1 where "run_step R b w = ([Raise e], Failed e, w1)"
  | (completes) ins outs c w2 where
      "run_step R b w = ([Run (fetch_list b), TriggerStep ins outs c], Completed, w2)"
  | (hook_raises) ins outs c e w2 where
      "run_step R b w = ([Run (fetch_list b), TriggerStep ins outs c, Raise e], Failed e, w2)"
proof (cases "sess_run R (fetch_list b) w")
  case (Pair r w1)
  show ?thesis
  proof (cases r)
    case (Inl e)
    with Pair have "run_step R b w = ([Raise e], Failed e, w1)"
      by (simp add: run_step_def)
    then show ?thesis by (rule run_raises)
  next
    case (Inr val)
    let ?res = "map val (fetch_list b)"
    let ?ins = "py_slice_from (- int (length (b_model_inputs b))) ?res"
    let ?outs = "py_slice 2 (2 + int (length (b_output_vars b))) ?res"
    obtain h w2 where ts: "trigger_step R ?ins ?outs (?res ! 1) w1 = (h, w2)"
      by (cases "trigger_step R ?ins ?outs (?res ! 1) w1")
    show ?thesis
    proof (cases h)
      case None
      with Pair Inr ts
      have "run_step R b w = ([Run (fetch_list b), TriggerStep ?ins ?outs (?res ! 1)], Completed, w2)"
        by (simp add: run_step_def Let_def)
      then show ?thesis by (rule completes)
    next
      case (Some e)
      with Pair Inr ts
      have "run_step R b w
              = ([Run (fetch_list b), TriggerStep ?ins ?outs (?res ! 1), Raise e], Failed e, w2)"
        by (simp add: run_step_def Let_def)
      then show ?thesis by (rule hook_raises)
    qed
  qed
qed

lemma step_loop_ok:
  assumes "step_loop R b steps w = (ev, x, w')"
  shows "steps_ok (ev @ rest) = (if x = Completed then steps_ok rest else rest = [])"
  using assms
proof (induction steps arbitrary: w ev x w')
  case Nil
  then show ?case by simp
next
  case (Cons s steps)
  obtain stop w1 where p: "should_stop R w = (stop, w1)" by (cases "should_stop R w")
  show ?case
  proof (cases stop)
    case True
    with Cons.prems p show ?thesis by auto
  next
    case False
    show ?thesis
    proof (cases rule: run_step_cases[of R b w1])
      case (run_raises e w2)
      with Cons.prems p False show ?thesis by auto
    next
      case (hook_raises ins outs c e w2)
      with Cons.prems p False show ?thesis by auto
    next
      case (completes ins outs c w2)
      obtain ev2 x2 w3 where sl: "step_loop R b steps w2 = (ev2, x2, w3)"
        by (cases "step_loop R b steps w2")
      from Cons.prems p False completes sl
      have e: "x = x2" "ev = Poll False # Run (fetch_list b) # TriggerStep ins outs c # ev2"
        by simp_all
      from Cons.IH[OF sl] e show ?thesis by simp
    qed
  qed
qed

lemma epoch_loop_ok: "steps_ok (fst (epoch_loop R b n epochs w))"
proof (induction epochs arbitrary: w)
  case Nil
  then show ?case by simp
next
  case (Cons e epochs)
  obtain ev x w1 where sl: "step_loop R b [0..n - 1] w = (ev, x, w1)"
    by (cases "step_loop R b [0..n - 1] w")
  show ?case
  proof (cases "x = Completed")
    case False
    with sl step_loop_ok[OF sl, of "[]"] show ?thesis by simp
  next
    case True
    obtain r w2 where te: "trigger_epoch R w1 = (r, w2)" by (cases "trigger_epoch R w1")
    show ?thesis
    proof (cases r)
      case (Some err)
      with sl True te step_loop_ok[OF sl, of "[TriggerEpoch, Raise err]"]
      show ?thesis by simp
    next
      case None
      with sl True te step_loop_ok[OF sl, of "TriggerEpoch # fst (epoch_loop R b n epochs w2)"]
        Cons.IH[of w2]
      show ?thesis by (simp add: case_prod_beta)
    qed
  qed
qed

lemma train_loop_ok: "steps_ok (fst (train_loop R config b w))"
proof -
  obtain r w1 where bt: "before_train R w = (r, w1)" by (cases "before_train R w")
  show ?thesis
  proof (cases r)
    case (Some err)
    with bt show ?thesis by (simp add: train_loop_def)
  next
    case None
    with bt epoch_loop_ok[of R b "step_per_epoch config" "[1..max_epoch config - 1]" w1]
    show ?thesis by (simp add: train_loop_def case_prod_beta)
  qed
qed

lemma steps_ok_stop:
  "steps_ok tr \<Longrightarrow> tr = pre @ Poll True # post \<Longrightarrow> post = []"
  by (induction tr arbitrary: pre rule: steps_ok.induct) (auto simp: Cons_eq_append_conv)

lemma steps_ok_Run:
  "steps_ok tr \<Longrightarrow> tr = pre @ Run f # post \<Longrightarrow>
     (\<exists>pre'. pre = pre' @ [Poll False]) \<and>
     (\<exists>ins outs c post'. post = TriggerStep ins outs c # post')"
proof (induction tr arbitrary: pre rule: steps_ok.induct)
  case (3 g i out c rest)
  from "3.prems" have "steps_ok (Poll False # Run g # TriggerStep i out c # rest)" by simp
  then have ok: "steps_ok rest" by simp
  from "3.prems"(2) consider
      (a) "pre = [Poll False]" "f = g" "post = TriggerStep i out c # rest"
    | (b) pre3 where "pre = Poll False # Run g # TriggerStep i out c # pre3" "rest = pre3 @ Run f # post"
    by (auto simp: Cons_eq_append_conv)
  then show ?case
  proof cases
    case a
    then show ?thesis by simp
  next
    case b
    from "3.IH"[OF ok b(2)] b(1) show ?thesis by auto
  qed
next
  case (9 rest)
  from "9.prems" have "steps_ok (OpenSession # rest)" by simp
  then have ok: "steps_ok rest" by simp
  from "9.prems" obtain pre2 where "pre = OpenSession # pre2" "rest = pre2 @ Run f # post"
    by (auto simp: Cons_eq_append_conv)
  with "9.IH"[OF ok, of pre2] show ?case by auto
next
  case (10 rest)
  from "10.prems" have "steps_ok (StartThreads # rest)" by simp
  then have ok: "steps_ok rest" by simp
  from "10.prems" obtain pre2 where "pre = StartThreads # pre2" "rest = pre2 @ Run f # post"
    by (auto simp: Cons_eq_append_conv)
  with "10.IH"[OF ok, of pre2] show ?case by auto
next
  case (11 rest)
  from "11.prems" have "steps_ok (BeforeTrain # rest)" by simp
  then have ok: "steps_ok rest" by simp
  from "11.prems" obtain pre2 where "pre = BeforeTrain # pre2" "rest = pre2 @ Run f # post"
    by (auto simp: Cons_eq_append_conv)
  with "11.IH"[OF ok, of pre2] show ?case by auto
next
  case (12 rest)
  from "12.prems" have "steps_ok (TriggerEpoch # rest)" by simp
  then have ok: "steps_ok rest" by simp
  from "12.prems" obtain pre2 where "pre = TriggerEpoch # pre2" "rest = pre2 @ Run f # post"
    by (auto simp: Cons_eq_append_conv)
  with "12.IH"[OF ok, of pre2] show ?case by auto
qed (auto simp: Cons_eq_append_conv)

lemma steps_executed_simps [simp]:
  "steps_executed [] = 0"
  "steps_executed (e # tr) = (if is_Run e then 1 else 0) + steps_executed tr"
  "steps_executed (tr @ tr') = steps_executed tr + steps_executed tr'"
  by (simp_all add: steps_executed_def)

lemma epochs_triggered_simps [simp]:
  "epochs_triggered [] = 0"
  "epochs_triggered (e # tr) = (if e = TriggerEpoch then 1 else 0) + epochs_triggered tr"
  "epochs_triggered (tr @ tr') = epochs_triggered tr + epochs_triggered tr'"
  by (simp_all add: epochs_triggered_def)

text \<open>
  How a loop ended can be read off its trace: it returned when a poll signalled stop,
  and it failed when something raised.
\<close>

lemma step_loop_count:
  "step_loop R b steps w = (ev, x, w') \<Longrightarrow>
     steps_executed ev \<le> length steps \<and> epochs_triggered ev = 0 \<and>
     (x = Returned \<longleftrightarrow> Poll True \<in> set ev) \<and>
     ((\<exists>e. x = Failed e) \<longleftrightarrow> (\<exists>e. Raise e \<in> set ev)) \<and>
     (x = Completed \<longrightarrow> steps_executed ev = length steps)"
proof (induction steps arbitrary: w ev x w')
  case Nil
  then show ?case by auto
next
  case (Cons s steps)
  obtain stop w1 where p: "should_stop R w = (stop, w1)" by (cases "should_stop R w")
  show ?case
  proof (cases stop)
    case True
    with Cons.prems p show ?thesis by auto
  next
    case False
    show ?thesis
    proof (cases rule: run_step_cases[of R b w1])
      case (run_raises e w2)
      with Cons.prems p False show ?thesis by auto
    next
      case (hook_raises ins outs c e w2)
      with Cons.prems p False show ?thesis by auto
    next
      case (completes ins outs c w2)
      obtain ev2 x2 w3 where sl: "step_loop R b steps w2 = (ev2, x2, w3)"
        by (cases "step_loop R b steps w2")
      from Cons.prems p False completes sl
      have e: "x = x2" "ev = Poll False # Run (fetch_list b) # TriggerStep ins outs c # ev2"
        by simp_all
      from Cons.IH[OF sl] show ?thesis unfolding e by auto
    qed
  qed
qed

lemma length_steps: "length [0..n - 1] = nat n"
  by simp

lemma epoch_loop_count:
  "epoch_loop R b n epochs w = (ev, x, w') \<Longrightarrow>
     steps_executed ev \<le> length epochs * nat n \<and> epochs_triggered ev \<le> length epochs \<and>
     (x = Returned \<longleftrightarrow> Poll True \<in> set ev) \<and>
     ((\<exists>e. x = Failed e) \<longleftrightarrow> (\<exists>e. Raise e \<in> set ev)) \<and>
     (x = Completed \<longrightarrow>
        steps_executed ev = length epochs * nat n \<and> epochs_triggered ev = length epochs)"
proof (induction epochs arbitrary: w ev x w')
  case Nil
  then show ?case by auto
next
  case (Cons e epochs)
  obtain ev1 x1 w1 where sl: "step_loop R b [0..n - 1] w = (ev1, x1, w1)"
    by (cases "step_loop R b [0..n - 1] w")
  note c1 = step_loop_count[OF sl, unfolded length_steps]
  show ?case
  proof (cases "x1 = Completed")
    case False
    with sl Cons.prems have "ev = ev1" "x = x1" by simp_all
    with c1 False show ?thesis by auto
  next
    case True
    obtain r w2 where te: "trigger_epoch R w1 = (r, w2)" by (cases "trigger_epoch R w1")
    show ?thesis
    proof (cases r)
      case (Some err)
      with sl True te Cons.prems
      have e: "ev = ev1 @ [TriggerEpoch, Raise err]" "x = Failed err" by simp_all
      from c1 True show ?thesis unfolding e by auto
    next
      case None
      obtain ev2 x2 w3 where el: "epoch_loop R b n epochs w2 = (ev2, x2, w3)"
        by (cases "epoch_loop R b n epochs w2")
      with sl True te None Cons.prems
      have e: "ev = ev1 @ TriggerEpoch # ev2" "x = x2" by simp_all
      from Cons.IH[OF el] c1 True show ?thesis unfolding e by auto
    qed
  qed
qed

lemma train_loop_count:
  assumes "train_loop R config b w = (tr, x, w')"
  shows "steps_executed tr \<le> nat (max_epoch config - 1) * nat (step_per_epoch config) \<and>
         epochs_triggered tr \<le> nat (max_epoch config - 1) \<and>
         (x = Returned \<longleftrightarrow> Poll True \<in> set tr) \<and>
         ((\<exists>e. x = Failed e) \<longleftrightarrow> (\<exists>e. Raise e \<in> set tr)) \<and>
         (x = Completed \<longrightarrow>
            steps_executed tr = nat (max_epoch config - 1) * nat (step_per_epoch config) \<and>
            epochs_triggered tr = nat (max_epoch config - 1))"
proof -
  obtain r w1 where bt: "before_train R w = (r, w1)" by (cases "before_train R w")
  show ?thesis
  proof (cases r)
    case (Some err)
    with bt assms have "tr = [BeforeTrain, Raise err]" "x = Failed err"
      by (simp_all add: train_loop_def)
    then show ?thesis by auto
  next
    case None
    obtain ev x2 w2 where el:
      "epoch_loop R b (step_per_epoch config) [1..max_epoch config - 1] w1 = (ev, x2, w2)"
      by (cases "epoch_loop R b (step_per_epoch config) [1..max_epoch config - 1] w1")
    with bt None assms have e: "tr = BeforeTrain # ev" "x = x2"
      by (simp_all add: train_loop_def)
    have len: "length [1..max_epoch config - 1] = nat (max_epoch config - 1)"
      by simp
    from epoch_loop_count[OF el, unfolded len] show ?thesis unfolding e by auto
  qed
qed

text \<open>
  C1. With \<^verbatim>\<open>step_per_epoch = S\<close> and \<^verbatim>\<open>max_epoch = M\<close>, both positive as the
  constructor requires, a run of the loop in which no poll of the coordinator signals
  stop and nothing raises executes exactly \<open>S * (M - 1)\<close> steps, calls
  \<^verbatim>\<open>trigger_epoch\<close> exactly \<open>M - 1\<close> times and runs to its end. Every run, cancelled or
  failed or not, executes at most \<open>S * (M - 1)\<close> steps and calls \<^verbatim>\<open>trigger_epoch\<close> at
  most \<open>M - 1\<close> times.
\<close>

theorem train_loop_step_count:
  assumes "0 < step_per_epoch config" and "0 < max_epoch config"
  shows "int (steps_executed (fst (train_loop R config b w)))
           \<le> step_per_epoch config * (max_epoch config - 1) \<and>
         int (epochs_triggered (fst (train_loop R config b w))) \<le> max_epoch config - 1 \<and>
         (Poll True \<notin> set (fst (train_loop R config b w)) \<and>
          (\<forall>e. Raise e \<notin> set (fst (train_loop R config b w))) \<longrightarrow>
            int (steps_executed (fst (train_loop R config b w)))
              = step_per_epoch config * (max_epoch config - 1) \<and>
            int (epochs_triggered (fst (train_loop R config b w))) = max_epoch config - 1 \<and>
            fst (snd (train_loop R config b w)) = Completed)"
proof -
  obtain tr x w' where tl: "train_loop R config b w = (tr, x, w')"
    by (cases "train_loop R config b w")
  note c = train_loop_count[OF tl]
  have prod: "int (nat (max_epoch config - 1) * nat (step_per_epoch config))
                = step_per_epoch config * (max_epoch config - 1)"
    using assms by simp
  have a: "int (steps_executed tr) \<le> step_per_epoch config * (max_epoch config - 1)"
    using c prod by linarith
  have b: "int (epochs_triggered tr) \<le> max_epoch config - 1"
    using c assms by linarith
  have d: "int (steps_executed tr) = step_per_epoch config * (max_epoch config - 1) \<and>
           int (epochs_triggered tr) = max_epoch config - 1 \<and> x = Completed"
    if "Poll True \<notin> set tr" "\<forall>e. Raise e \<notin> set tr"
  proof -
    from that c have "x \<noteq> Returned" "\<And>e. x \<noteq> Failed e" by auto
    then have x: "x = Completed" by (cases x) auto
    with c prod assms show ?thesis by auto
  qed
  show ?thesis unfolding tl fst_conv snd_conv using a b d by blast
qed

text \<open>
  Three runs of the small configuration: one that nothing interrupts, one that the
  coordinator stops after two executions, and one whose second execution raises.
\<close>

lemma demo_trace_free:
  "train_loop (counting_runtime 100 100) demo_config demo_built (0, 0) =
     ([BeforeTrain,
       Poll False, Run (fetch_list demo_built),
         TriggerStep (map (\<lambda>t. (FetchInput t, 0)) mnist_inputs)
           [(FetchTensor (TensorRef ''prob''), 0)] (FetchTensor (TensorRef ''cost''), 0),
       Poll False, Run (fetch_list demo_built),
         TriggerStep (map (\<lambda>t. (FetchInput t, 1)) mnist_inputs)
           [(FetchTensor (TensorRef ''prob''), 1)] (FetchTensor (TensorRef ''cost''), 1),
       Poll False, Run (fetch_list demo_built),
         TriggerStep (map (\<lambda>t. (FetchInput t, 2)) mnist_inputs)
           [(FetchTensor (TensorRef ''prob''), 2)] (FetchTensor (TensorRef ''cost''), 2),
       TriggerEpoch], Completed, (3, 5))"
  by code_simp

lemma demo_trace_stopped:
  "train_loop (counting_runtime 2 100) demo_config demo_built (0, 0) =
     ([BeforeTrain,
       Poll False, Run (fetch_list demo_built),
         TriggerStep (map (\<lambda>t. (FetchInput t, 0)) mnist_inputs)
           [(FetchTensor (TensorRef ''prob''), 0)] (FetchTensor (TensorRef ''cost''), 0),
       Poll False, Run (fetch_list demo_built),
         TriggerStep (map (\<lambda>t. (FetchInput t, 1)) mnist_inputs)
           [(FetchTensor (TensorRef ''prob''), 1)] (FetchTensor (TensorRef ''cost''), 1),
       Poll True], Returned, (2, 3))"
  by code_simp

lemma demo_trace_failed:
  "train_loop (counting_runtime 100 1) demo_config demo_built (0, 0) =
     ([BeforeTrain,
       Poll False, Run (fetch_list demo_built),
         TriggerStep (map (\<lambda>t. (FetchInput t, 0)) mnist_inputs)
           [(FetchTensor (TensorRef ''prob''), 0)] (FetchTensor (TensorRef ''cost''), 0),
       Poll False, Raise (OtherError ''OutOfRangeError'')],
      Failed (OtherError ''OutOfRangeError''), (2, 2))"
  by code_simp

theorem train_loop_step_count_witness:
  "0 < step_per_epoch demo_config \<and> 0 < max_epoch demo_config \<and>
   int (steps_executed (fst (train_loop (counting_runtime 100 100) demo_config demo_built (0, 0))))
      = 3 * (2 - 1) \<and>
   int (epochs_triggered (fst (train_loop (counting_runtime 100 100) demo_config demo_built (0, 0))))
      = 2 - 1 \<and>
   fst (snd (train_loop (counting_runtime 100 100) demo_config demo_built (0, 0))) = Completed"
proof -
  have cfg: "step_per_epoch demo_config = 3" "max_epoch demo_config = 2"
    by (simp_all add: demo_config_def)
  have nostop: "Poll True \<notin> set (fst (train_loop (counting_runtime 100 100) demo_config demo_built (0, 0)))"
    unfolding demo_trace_free by simp
  have noraise: "\<forall>e. Raise e \<notin> set (fst (train_loop (counting_runtime 100 100) demo_config demo_built (0, 0)))"
    unfolding demo_trace_free by simp
  from train_loop_step_count[of demo_config "counting_runtime 100 100" demo_built "(0, 0)"]
    cfg nostop noraise
  show ?thesis by simp
qed

text \<open>
  C6. In every run of the loop, nothing follows a poll that signalled stop: no step, no
  hook. Every execution comes right after a poll that did not signal stop, and is
  followed by its call of \<^verbatim>\<open>trigger_step\<close>: a step that has begun is completed.
\<close>

theorem train_loop_cancellation:
  assumes "fst (train_loop R config b w) = tr"
  shows "(tr = pre @ Poll True # post \<longrightarrow> post = []) \<and>
         (tr = pre @ Run f # post \<longrightarrow>
            (\<exists>pre'. pre = pre' @ [Poll False]) \<and>
            (\<exists>step_inputs outputs cost post'. post = TriggerStep step_inputs outputs cost # post'))"
proof (intro conjI impI)
  note ok = train_loop_ok[of R config b w, unfolded assms]
  { assume "tr = pre @ Poll True # post"
    with ok show "post = []" by (rule steps_ok_stop) }
  { assume d: "tr = pre @ Run f # post"
    from steps_ok_Run[OF ok d] show "\<exists>pre'. pre = pre' @ [Poll False]" by blast
    from steps_ok_Run[OF ok d]
    show "\<exists>step_inputs outputs cost post'. post = TriggerStep step_inputs outputs cost # post'"
      by blast }
qed

theorem train_loop_cancellation_witness:
  "(\<exists>pre. fst (train_loop (counting_runtime 2 100) demo_config demo_built (0, 0))
           = pre @ [Poll True]) \<and>
   (\<exists>step_inputs outputs cost post'.
      drop 3 (fst (train_loop (counting_runtime 2 100) demo_config demo_built (0, 0)))
        = TriggerStep step_inputs outputs cost # post')"
proof -
  let ?tr = "fst (train_loop (counting_runtime 2 100) demo_config demo_built (0, 0))"
  have a: "?tr = take 7 ?tr @ Poll True # []"
    unfolding demo_trace_stopped by simp
  have b: "?tr = take 2 ?tr @ Run (fetch_list demo_built) # drop 3 ?tr"
    unfolding demo_trace_stopped by simp
  from train_loop_cancellation[OF refl, of "counting_runtime 2 100" demo_config demo_built "(0, 0)"
        "take 2 ?tr" "drop 3 ?tr" "fetch_list demo_built"] b
  have "\<exists>step_inputs outputs cost post'. drop 3 ?tr = TriggerStep step_inputs outputs cost # post'"
    by blast
  moreover from a have "\<exists>pre. ?tr = pre @ [Poll True]" by blast
  ultimately show ?thesis by blast
qed

lemma fetch_list_eq:
  "fetch_list b = b_train_op b # FetchTensor (b_cost_var b) #
                    map FetchTensor (b_output_vars b) @ map FetchInput (b_model_inputs b)"
  by (simp add: fetch_list_def)

lemma step_loop_replay:
  assumes "b_model_inputs b \<noteq> []" and "step_loop R b steps w = (ev, x, w')"
  shows "replay R b (ev @ rest) w =
           (if x = Completed then replay R b rest w' else if rest = [] then Some w' else None)"
  using assms(2)
proof (induction steps arbitrary: w ev x w')
  case Nil
  then show ?case by simp
next
  case (Cons s steps)
  obtain stop w1 where p: "should_stop R w = (stop, w1)" by (cases "should_stop R w")
  show ?case
  proof (cases stop)
    case True
    with Cons.prems p show ?thesis by auto
  next
    case False
    obtain r w2 where sr: "sess_run R (fetch_list b) w1 = (r, w2)"
      by (cases "sess_run R (fetch_list b) w1")
    show ?thesis
    proof (cases r)
      case (Inl err)
      with Cons.prems p False sr
      have e: "ev = [Poll False, Raise err]" "x = Failed err" "w' = w2"
        by (simp_all add: run_step_eq[OF assms(1)])
      show ?thesis unfolding e using p False sr Inl by (simp add: fetch_list_eq)
    next
      case (Inr val)
      let ?ins = "map (\<lambda>t. val (FetchInput t)) (b_model_inputs b)"
      let ?outs = "map (\<lambda>t. val (FetchTensor t)) (b_output_vars b)"
      let ?cost = "val (FetchTensor (b_cost_var b))"
      obtain h w3 where ts: "trigger_step R ?ins ?outs ?cost w2 = (h, w3)"
        by (cases "trigger_step R ?ins ?outs ?cost w2")
      show ?thesis
      proof (cases h)
        case (Some err)
        with Cons.prems p False sr Inr ts
        have e: "ev = [Poll False, Run (fetch_list b), TriggerStep ?ins ?outs ?cost, Raise err]"
            "x = Failed err" "w' = w3"
          by (simp_all add: run_step_eq[OF assms(1)] Let_def)
        show ?thesis unfolding e using p False sr Inr ts Some
          by (simp add: fetch_list_eq[symmetric])
      next
        case None
        obtain ev2 x2 w4 where sl: "step_loop R b steps w3 = (ev2, x2, w4)"
          by (cases "step_loop R b steps w3")
        from Cons.prems p False sr Inr ts None sl
        have e: "ev = Poll False # Run (fetch_list b) # TriggerStep ?ins ?outs ?cost # ev2"
            "x = x2" "w' = w4"
          by (simp_all add: run_step_eq[OF assms(1)] Let_def)
        show ?thesis unfolding e using p False sr Inr ts None Cons.IH[OF sl]
          by (simp add: fetch_list_eq[symmetric])
      qed
    qed
  qed
qed

lemma epoch_loop_replay:
  assumes "b_model_inputs b \<noteq> []" and "epoch_loop R b n epochs w = (ev, x, w')"
  shows "replay R b ev w = Some w'"
  using assms(2)
proof (induction epochs arbitrary: w ev x w')
  case Nil
  then show ?case by simp
next
  case (Cons e epochs)
  obtain ev1 x1 w1 where sl: "step_loop R b [0..n - 1] w = (ev1, x1, w1)"
    by (cases "step_loop R b [0..n - 1] w")
  note rp = step_loop_replay[OF assms(1) sl]
  show ?case
  proof (cases "x1 = Completed")
    case False
    with sl Cons.prems have "ev = ev1" "w' = w1" by simp_all
    with rp[of "[]"] False show ?thesis by simp
  next
    case True
    obtain r w2 where te: "trigger_epoch R w1 = (r, w2)" by (cases "trigger_epoch R w1")
    show ?thesis
    proof (cases r)
      case (Some err)
      with sl True te Cons.prems
      have e: "ev = ev1 @ [TriggerEpoch, Raise err]" "w' = w2" by simp_all
      show ?thesis unfolding e rp using True te Some by simp
    next
      case None
      obtain ev2 x2 w3 where el: "epoch_loop R b n epochs w2 = (ev2, x2, w3)"
        by (cases "epoch_loop R b n epochs w2")
      with sl True te None Cons.prems
      have e: "ev = ev1 @ TriggerEpoch # ev2" "w' = w3" by simp_all
      show ?thesis unfolding e rp using True te None Cons.IH[OF el] by simp
    qed
  qed
qed

text \<open>
  C7. With at least one model input, a step (lines 191 to 196) on a world is one
  execution, on this world, of the list \<^verbatim>\<open>[train_op, cost_var] + output_vars +
  model_inputs\<close>, followed, when the execution returns, by the call of \<^verbatim>\<open>trigger_step\<close>
  on the world the execution left, with the values this execution gave to the model
  inputs, to the output tensors and to the cost. And the steps of the loop are such
  steps, each on the world the poll before it left: the trace of the loop replays in
  the world the loop started in and ends in the world in which the loop ended, so
  nothing else is executed and no call is left out.
\<close>

theorem train_loop_fused_step:
  assumes "b_model_inputs b \<noteq> []"
  shows "(let f = b_train_op b # FetchTensor (b_cost_var b) #
                    map FetchTensor (b_output_vars b) @ map FetchInput (b_model_inputs b)
          in run_step R b w1 =
               (case sess_run R f w1 of
                  (Inl e, w2) \<Rightarrow> ([Raise e], Failed e, w2)
                | (Inr val, w2) \<Rightarrow>
                    let step_inputs = map (\<lambda>t. val (FetchInput t)) (b_model_inputs b);
                        outputs = map (\<lambda>t. val (FetchTensor t)) (b_output_vars b);
                        cost = val (FetchTensor (b_cost_var b))
                    in case trigger_step R step_inputs outputs cost w2 of
                         (None, w3) \<Rightarrow>
                           ([Run f, TriggerStep step_inputs outputs cost], Completed, w3)
                       | (Some e, w3) \<Rightarrow>
                           ([Run f, TriggerStep step_inputs outputs cost, Raise e], Failed e, w3))) \<and>
         replay R b (fst (train_loop R config b w)) w = Some (snd (snd (train_loop R config b w)))"
proof
  show "let f = b_train_op b # FetchTensor (b_cost_var b) #
                    map FetchTensor (b_output_vars b) @ map FetchInput (b_model_inputs b)
          in run_step R b w1 =
               (case sess_run R f w1 of
                  (Inl e, w2) \<Rightarrow> ([Raise e], Failed e, w2)
                | (Inr val, w2) \<Rightarrow>
                    let step_inputs = map (\<lambda>t. val (FetchInput t)) (b_model_inputs b);
                        outputs = map (\<lambda>t. val (FetchTensor t)) (b_output_vars b);
                        cost = val (FetchTensor (b_cost_var b))
                    in case trigger_step R step_inputs outputs cost w2 of
                         (None, w3) \<Rightarrow>
                           ([Run f, TriggerStep step_inputs outputs cost], Completed, w3)
                       | (Some e, w3) \<Rightarrow>
                           ([Run f, TriggerStep step_inputs outputs cost, Raise e], Failed e, w3))"
    unfolding Let_def fetch_list_eq[symmetric]
    using run_step_eq[OF assms, of R w1] unfolding Let_def .
  obtain r w1 where bt: "before_train R w = (r, w1)" by (cases "before_train R w")
  show "replay R b (fst (train_loop R config b w)) w = Some (snd (snd (train_loop R config b w)))"
  proof (cases r)
    case (Some err)
    with bt show ?thesis by (simp add: train_loop_def)
  next
    case None
    obtain ev x w2 where el:
      "epoch_loop R b (step_per_epoch config) [1..max_epoch config - 1] w1 = (ev, x, w2)"
      by (cases "epoch_loop R b (step_per_epoch config) [1..max_epoch config - 1] w1")
    from epoch_loop_replay[OF assms el] bt None el show ?thesis
      by (simp add: train_loop_def)
  qed
qed

theorem train_loop_fused_step_witness:
  "b_model_inputs demo_built \<noteq> [] \<and>
   replay (counting_runtime 100 100) demo_built
     [BeforeTrain,
      Poll False, Run (fetch_list demo_built),
        TriggerStep (map (\<lambda>t. (FetchInput t, 0)) mnist_inputs)
          [(FetchTensor (TensorRef ''prob''), 0)] (FetchTensor (TensorRef ''cost''), 0),
      Poll False, Run (fetch_list demo_built),
        TriggerStep (map (\<lambda>t. (FetchInput t, 1)) mnist_inputs)
          [(FetchTensor (TensorRef ''prob''), 1)] (FetchTensor (TensorRef ''cost''), 1),
      Poll False, Run (fetch_list demo_built),
        TriggerStep (map (\<lambda>t. (FetchInput t, 2)) mnist_inputs)
          [(FetchTensor (TensorRef ''prob''), 2)] (FetchTensor (TensorRef ''cost''), 2),
      TriggerEpoch] (0, 0) = Some (3, 5)"
proof -
  have a: "b_model_inputs demo_built \<noteq> []"
    by (simp add: demo_built_def mnist_inputs_def)
  from train_loop_fused_step[OF a, of "counting_runtime 100 100" _ demo_config "(0, 0)"] a
  show ?thesis unfolding demo_trace_free by simp
qed

section \<open>Properties of the graph construction\<close>

lemma check_enqueue_dtypes_match:
  assumes "q_dtypes q = map t_dtype vals"
  shows "check_enqueue_dtypes q vals = Inr vals"
proof -
  have "list_all (\<lambda>(val, d). t_dtype val = d) (zip vs (map t_dtype vs))" for vs :: "itensor list"
    by (induction vs) simp_all
  moreover have "map fst (zip vs (map t_dtype vs)) = vs" for vs :: "itensor list"
    by (induction vs) simp_all
  ultimately show ?thesis
    by (simp add: check_enqueue_dtypes_def assms)
qed

lemma enqueue_Inr:
  assumes "q_dtypes q = map t_dtype vals" and "enqueue q vals = Inr op"
  shows "op = Enqueue q vals"
  using assms(2) unfolding enqueue_def check_enqueue_dtypes_match[OF assms(1)]
  by (simp split: if_splits)

lemma enqueue_many_Inr:
  assumes "q_dtypes q = map t_dtype vals" and "enqueue_many q vals = Inr op"
  shows "op = EnqueueMany q vals"
  using assms(2) unfolding enqueue_many_def check_enqueue_dtypes_match[OF assms(1)]
  by (auto simp: bind_err_Inr split: list.splits)

lemma set_shape_Inr:
  "set_shape qv s = Inr r \<longleftrightarrow> merge_shape (t_shape qv) s = Some (t_shape r) \<and> r = qv\<lparr>t_shape := t_shape r\<rparr>"
  by (cases "merge_shape (t_shape qv) s") (auto simp: set_shape_def)

lemma set_shapes_length:
  "set_shapes batched qvs vs = Inr rs \<Longrightarrow> length rs = length qvs"
  by (induction batched qvs vs arbitrary: rs rule: set_shapes.induct) (auto simp: bind_err_Inr)

lemma set_shapes_batched_nth:
  "set_shapes True qvs vs = Inr rs \<Longrightarrow> i < length qvs \<Longrightarrow> i < length vs \<Longrightarrow>
     merge_shape (t_shape (qvs ! i)) (t_shape (vs ! i)) = Some (t_shape (rs ! i))"
proof (induction qvs arbitrary: vs rs i)
  case Nil
  then show ?case by simp
next
  case (Cons qv qvs)
  from Cons.prems(3) obtain v vs' where vs: "vs = v # vs'" by (cases vs) auto
  from Cons.prems(1) obtain r rs' where
    r: "set_shape qv (t_shape v) = Inr r" and rs': "set_shapes True qvs vs' = Inr rs'" and
    rs: "rs = r # rs'"
    unfolding vs by (auto simp: bind_err_Inr)
  show ?case
  proof (cases i)
    case 0
    with r show ?thesis by (simp add: vs rs set_shape_Inr)
  next
    case (Suc k)
    with Cons.prems have "k < length qvs" "k < length vs'" by (simp_all add: vs)
    from Cons.IH[OF rs' this] show ?thesis by (simp add: vs rs Suc)
  qed
qed

lemma set_shapes_unbatched_nth:
  "set_shapes False qvs vs = Inr rs \<Longrightarrow> i < length qvs \<Longrightarrow> i < length vs \<Longrightarrow>
     \<exists>ds. t_shape (vs ! i) = Some ds \<and>
          merge_shape (t_shape (qvs ! i)) (Some (drop 1 ds)) = Some (t_shape (rs ! i))"
proof (induction qvs arbitrary: vs rs i)
  case Nil
  then show ?case by simp
next
  case (Cons qv qvs)
  from Cons.prems(3) obtain v vs' where vs: "vs = v # vs'" by (cases vs) auto
  from Cons.prems(1) obtain ds r rs' where
    ds: "t_shape v = Some ds" and
    r: "set_shape qv (Some (drop 1 ds)) = Inr r" and rs': "set_shapes False qvs vs' = Inr rs'" and
    rs: "rs = r # rs'"
    unfolding vs by (auto simp: bind_err_Inr as_list_def split: option.splits)
  show ?case
  proof (cases i)
    case 0
    with r ds show ?thesis by (simp add: vs rs set_shape_Inr)
  next
    case (Suc k)
    with Cons.prems have "k < length qvs" "k < length vs'" by (simp_all add: vs)
    from Cons.IH[OF rs' this] show ?thesis by (simp add: vs rs Suc)
  qed
qed

lemma get_model_inputs_Inr:
  assumes "get_model_inputs config = Inr model_inputs"
  shows "set_shapes (truthy (batched_model_input config))
           (map (\<lambda>(d, s). \<lparr>t_name = q_name (input_queue config) @ ''_Dequeue'', t_dtype = d,
                           t_shape = s\<rparr>) (q_components (input_queue config)))
           (inputs config) = Inr model_inputs"
  using assms
  by (simp add: get_model_inputs_def dequeue_def Let_def split: if_splits)

text \<open>
  The two ways in which the construction of the queue ends raises whatever the flag: a
  configuration of one input variable, since its queue has one component, and a
  rank 0 input variable under \<^verbatim>\<open>enqueue_many\<close>.
\<close>

lemma get_model_inputs_one_component:
  "length (q_components (input_queue config)) = 1 \<Longrightarrow> get_model_inputs config = Inl TypeError"
  by (simp add: get_model_inputs_def dequeue_def Let_def)

lemma enqueue_many_rank_0:
  assumes "q_dtypes q = map t_dtype vals" and "v \<in> set vals" and "t_shape v = Some []"
  shows "enqueue_many q vals = Inl ValueError"
proof -
  have cb: "check_batches bd (zip vs ss) = Inl ValueError"
    if "v \<in> set vs" "length ss = length vs" for bd vs ss
    using that
  proof (induction vs arbitrary: bd ss)
    case Nil
    then show ?case by simp
  next
    case (Cons a vs)
    then obtain s ss' where ss: "ss = s # ss'" "length ss' = length vs" by (cases ss) auto
    show ?case
    proof (cases "a = v")
      case True
      then show ?thesis using assms(3) by (simp add: ss batch_dim_def)
    next
      case False
      with Cons.prems have "v \<in> set vs" by simp
      from Cons.IH[OF this ss(2)] show ?thesis
        by (simp add: ss bind_err_def batch_dim_def split: sum.splits option.splits list.splits)
    qed
  qed
  from assms(1) have len: "length (q_shapes q) = length vals"
    by (metis length_map q_dtypes_def q_shapes_def)
  from assms(2) obtain a rest where vals: "vals = a # rest" by (cases vals) auto
  show ?thesis
    unfolding enqueue_many_def check_enqueue_dtypes_match[OF assms(1)]
    using cb[OF assms(2) len]
    by (simp add: vals bind_err_def batch_dim_def split: sum.splits option.splits list.splits)
qed

text \<open>
  C8. Take a configuration whose queue has the dtypes of its inputs, for which the
  enqueue operation and the model inputs are built. There is one model input per input
  variable. When \<^verbatim>\<open>batched_model_input\<close> is true the operation is \<^verbatim>\<open>enqueue\<close> (one record
  per push), and the shape of every model input is the shape of its queue component
  merged with the configured shape of the input variable, batch dimension included: the
  configured shape itself when the queue has no static shapes, as the default queue.
  When it is false the operation is \<^verbatim>\<open>enqueue_many\<close>, every configured shape has a
  leading dimension, and the same holds with the configured shape without it.
\<close>

theorem batched_model_input_controls_queue:
  assumes "q_dtypes (input_queue config) = map t_dtype (inputs config)"
      and "make_enqueue_op config = Inr op"
      and "get_model_inputs config = Inr model_inputs"
  shows "length model_inputs = length (inputs config) \<and>
         (truthy (batched_model_input config) \<longrightarrow>
            op = Enqueue (input_queue config) (inputs config) \<and>
            (\<forall>i < length (inputs config).
               merge_shape (q_shapes (input_queue config) ! i) (t_shape (inputs config ! i))
                 = Some (t_shape (model_inputs ! i)) \<and>
               (q_shapes (input_queue config) ! i = None \<longrightarrow>
                  t_shape (model_inputs ! i) = t_shape (inputs config ! i)))) \<and>
         (\<not> truthy (batched_model_input config) \<longrightarrow>
            op = EnqueueMany (input_queue config) (inputs config) \<and>
            (\<forall>i < length (inputs config).
               \<exists>d ds. t_shape (inputs config ! i) = Some (d # ds) \<and>
                 merge_shape (q_shapes (input_queue config) ! i) (Some ds)
                   = Some (t_shape (model_inputs ! i)) \<and>
                 (q_shapes (input_queue config) ! i = None \<longrightarrow>
                    t_shape (model_inputs ! i) = Some ds)))"
proof -
  let ?q = "input_queue config"
  let ?qvs = "map (\<lambda>(d, s). \<lparr>t_name = q_name ?q @ ''_Dequeue'', t_dtype = d, t_shape = s\<rparr>)
                (q_components ?q)"
  note ss = get_model_inputs_Inr[OF assms(3)]
  from assms(1) have len: "length (q_components ?q) = length (inputs config)"
    by (metis length_map q_dtypes_def)
  have qs: "t_shape (?qvs ! i) = q_shapes ?q ! i" if "i < length (inputs config)" for i
    using that len by (simp add: q_shapes_def case_prod_beta)
  have 1: "length model_inputs = length (inputs config)"
    using set_shapes_length[OF ss] len by simp
  have 2: "op = Enqueue ?q (inputs config) \<and>
           (\<forall>i < length (inputs config).
               merge_shape (q_shapes ?q ! i) (t_shape (inputs config ! i))
                 = Some (t_shape (model_inputs ! i)) \<and>
               (q_shapes ?q ! i = None \<longrightarrow>
                  t_shape (model_inputs ! i) = t_shape (inputs config ! i)))"
    if t: "truthy (batched_model_input config)"
  proof (intro conjI allI impI)
    from assms(2) t show "op = Enqueue ?q (inputs config)"
      by (simp add: make_enqueue_op_def enqueue_Inr[OF assms(1)])
    fix i assume i: "i < length (inputs config)"
    from ss t have "set_shapes True ?qvs (inputs config) = Inr model_inputs" by simp
    from set_shapes_batched_nth[OF this, of i] i len
    have "merge_shape (t_shape (?qvs ! i)) (t_shape (inputs config ! i))
            = Some (t_shape (model_inputs ! i))"
      by simp
    then show m: "merge_shape (q_shapes ?q ! i) (t_shape (inputs config ! i))
            = Some (t_shape (model_inputs ! i))"
      unfolding qs[OF i] .
    assume "q_shapes ?q ! i = None"
    with m show "t_shape (model_inputs ! i) = t_shape (inputs config ! i)" by simp
  qed
  have 3: "op = EnqueueMany ?q (inputs config) \<and>
           (\<forall>i < length (inputs config).
               \<exists>d ds. t_shape (inputs config ! i) = Some (d # ds) \<and>
                 merge_shape (q_shapes ?q ! i) (Some ds)
                   = Some (t_shape (model_inputs ! i)) \<and>
                 (q_shapes ?q ! i = None \<longrightarrow> t_shape (model_inputs ! i) = Some ds))"
    if f: "\<not> truthy (batched_model_input config)"
  proof (intro conjI allI impI)
    from assms(2) f show "op = EnqueueMany ?q (inputs config)"
      by (simp add: make_enqueue_op_def enqueue_many_Inr[OF assms(1)])
    fix i assume i: "i < length (inputs config)"
    from ss f have "set_shapes False ?qvs (inputs config) = Inr model_inputs" by simp
    from set_shapes_unbatched_nth[OF this, of i] i len
    have "\<exists>ds. t_shape (inputs config ! i) = Some ds \<and>
            merge_shape (t_shape (?qvs ! i)) (Some (drop 1 ds))
              = Some (t_shape (model_inputs ! i))"
      by simp
    then obtain ds0 where ds0: "t_shape (inputs config ! i) = Some ds0"
        "merge_shape (q_shapes ?q ! i) (Some (drop 1 ds0)) = Some (t_shape (model_inputs ! i))"
      unfolding qs[OF i] by blast
    have "ds0 \<noteq> []"
    proof
      assume "ds0 = []"
      with ds0(1) have "t_shape (inputs config ! i) = Some []" by simp
      from enqueue_many_rank_0[OF assms(1) nth_mem[OF i] this] assms(2) f
      show False by (simp add: make_enqueue_op_def)
    qed
    then obtain d ds where "ds0 = d # ds" by (cases ds0) auto
    with ds0 show "\<exists>d ds. t_shape (inputs config ! i) = Some (d # ds) \<and>
                 merge_shape (q_shapes ?q ! i) (Some ds)
                   = Some (t_shape (model_inputs ! i)) \<and>
                 (q_shapes ?q ! i = None \<longrightarrow> t_shape (model_inputs ! i) = Some ds)"
      by auto
  qed
  from 1 2 3 show ?thesis by blast
qed

text \<open>
  The hypotheses hold for the configurations the constructor builds by default, with the
  default queue and \<^verbatim>\<open>batched_model_input\<close> true, as soon as there are two inputs.
\<close>

lemma default_queue_ends_built:
  assumes "q_components (input_queue config) = map (\<lambda>v. (t_dtype v, None)) (inputs config)"
      and "truthy (batched_model_input config)" and "2 \<le> length (inputs config)"
  shows "make_enqueue_op config = Inr (Enqueue (input_queue config) (inputs config))"
    and "get_model_inputs config =
           Inr (map (\<lambda>v. \<lparr>t_name = q_name (input_queue config) @ ''_Dequeue'',
                           t_dtype = t_dtype v, t_shape = t_shape v\<rparr>) (inputs config))"
proof -
  let ?q = "input_queue config"
  have dt: "q_dtypes ?q = map t_dtype (inputs config)"
    by (simp add: q_dtypes_def assms(1) comp_def)
  have sh: "q_shapes ?q = map (\<lambda>v. None) (inputs config)"
    by (simp add: q_shapes_def assms(1) comp_def)
  have compat: "is_compatible_with s None" for s
    by (cases s) (simp_all add: is_compatible_with_def)
  have all: "list_all (\<lambda>(val, shape). is_compatible_with (t_shape val) shape)
               (zip vs (map (\<lambda>v. None) vs))" for vs :: "itensor list"
    by (induction vs) (simp_all add: compat)
  from assms(3) have ne: "inputs config \<noteq> []" by auto
  show "make_enqueue_op config = Inr (Enqueue ?q (inputs config))"
    using assms(2) ne
    by (simp add: make_enqueue_op_def enqueue_def check_enqueue_dtypes_match[OF dt] sh all)
  have ss: "set_shapes True
              (map (\<lambda>(d, s). \<lparr>t_name = n, t_dtype = d, t_shape = s\<rparr>)
                 (map (\<lambda>v. (t_dtype v, None)) vs)) vs
            = Inr (map (\<lambda>v. \<lparr>t_name = n, t_dtype = t_dtype v, t_shape = t_shape v\<rparr>) vs)"
    for n and vs :: "itensor list"
    by (induction vs) (simp_all add: set_shape_def)
  from assms(3) have "length (q_components ?q) \<noteq> 1" by (simp add: assms(1))
  then show "get_model_inputs config =
           Inr (map (\<lambda>v. \<lparr>t_name = q_name ?q @ ''_Dequeue'',
                           t_dtype = t_dtype v, t_shape = t_shape v\<rparr>) (inputs config))"
    using assms(2) ss[of "q_name ?q @ ''_Dequeue''" "inputs config"]
    by (simp add: get_model_inputs_def dequeue_def Let_def assms(1))
qed

lemma demo_queue_ends:
  "make_enqueue_op base_config = Inr (Enqueue (input_queue base_config) mnist_inputs)"
  "get_model_inputs base_config = Inr demo_model_inputs"
  "make_enqueue_op (base_config\<lparr>batched_model_input := PBool False\<rparr>)
     = Inr (EnqueueMany (input_queue base_config) mnist_inputs)"
  "get_model_inputs (base_config\<lparr>batched_model_input := PBool False\<rparr>)
     = Inr demo_single_inputs"
  by code_simp+

lemma map_two: "length xs = 2 \<Longrightarrow> map f xs = [f (xs ! 0), f (xs ! 1)]"
  by (cases xs; cases "tl xs") auto

theorem batched_model_input_controls_queue_witness:
  "make_enqueue_op base_config = Inr (Enqueue (input_queue base_config) mnist_inputs) \<and>
   get_model_inputs base_config = Inr demo_model_inputs \<and>
   map t_shape demo_model_inputs = [Some [Some 128, Some 28, Some 28], Some [Some 128]] \<and>
   make_enqueue_op (base_config\<lparr>batched_model_input := PBool False\<rparr>)
     = Inr (EnqueueMany (input_queue base_config) mnist_inputs) \<and>
   get_model_inputs (base_config\<lparr>batched_model_input := PBool False\<rparr>) = Inr demo_single_inputs \<and>
   map t_shape demo_single_inputs = [Some [Some 28, Some 28], Some []]"
proof -
  let ?c = "base_config\<lparr>batched_model_input := PBool False\<rparr>"
  have a: "q_dtypes (input_queue base_config) = map t_dtype (inputs base_config)"
    by (simp add: base_config_def q_dtypes_def mnist_inputs_def)
  then have a': "q_dtypes (input_queue ?c) = map t_dtype (inputs ?c)" by simp
  have i: "inputs base_config = mnist_inputs" "length mnist_inputs = 2"
    by (simp_all add: base_config_def mnist_inputs_def)
  have q: "q_shapes (input_queue base_config) ! 0 = None"
      "q_shapes (input_queue base_config) ! 1 = None"
    by (simp_all add: base_config_def q_shapes_def)
  have t: "truthy (batched_model_input base_config)" "\<not> truthy (batched_model_input ?c)"
    by (simp_all add: base_config_def)
  note b = batched_model_input_controls_queue[OF a demo_queue_ends(1,2)]
  from b have bl: "length demo_model_inputs = 2" by (simp add: i)
  from b t(1) have
    "\<forall>k<2. q_shapes (input_queue base_config) ! k = None \<longrightarrow>
        t_shape (demo_model_inputs ! k) = t_shape (mnist_inputs ! k)"
    by (simp add: i)
  with q have "t_shape (demo_model_inputs ! 0) = Some [Some 128, Some 28, Some 28]"
      "t_shape (demo_model_inputs ! 1) = Some [Some 128]"
    by (simp_all add: mnist_inputs_def)
  with map_two[OF bl, of t_shape]
  have 1: "map t_shape demo_model_inputs = [Some [Some 128, Some 28, Some 28], Some [Some 128]]"
    by simp
  note u = batched_model_input_controls_queue[OF a' demo_queue_ends(3,4)]
  from u have ul: "length demo_single_inputs = 2" by (simp add: i)
  from u t(2) have
    "\<forall>k<2. \<exists>d ds. t_shape (mnist_inputs ! k) = Some (d # ds) \<and>
        (q_shapes (input_queue base_config) ! k = None \<longrightarrow>
           t_shape (demo_single_inputs ! k) = Some ds)"
    by (simp add: i) blast
  from this[rule_format, of 0] this[rule_format, of 1] q
  have "t_shape (demo_single_inputs ! 0) = Some [Some 28, Some 28]"
      "t_shape (demo_single_inputs ! 1) = Some []"
    by (auto simp: mnist_inputs_def)
  with map_two[OF ul, of t_shape]
  have 2: "map t_shape demo_single_inputs = [Some [Some 28, Some 28], Some []]"
    by simp
  from 1 2 demo_queue_ends show ?thesis by simp
qed

lemma tensor_not_its_mean: "ReduceMean (Concat [ExpandDims t]) \<noteq> t"
proof
  assume "ReduceMean (Concat [ExpandDims t]) = t"
  then have "size (ReduceMean (Concat [ExpandDims t])) = size t" by simp
  then show False by simp
qed

lemma zip_star_single_Cons: "zip_star [x # xs] = [x] # zip_star [xs]"
  by (subst zip_star.simps) simp

lemma average_single_tower_differs:
  assumes "gs \<noteq> []"
  shows "average_gradients [gs] \<noteq> Inr gs"
proof -
  from assms obtain g v rest where gs: "gs = (g, v) # rest" by (cases gs) auto
  show ?thesis
  proof (cases g)
    case None
    then show ?thesis
      by (simp add: gs average_gradients_def zip_star_single_Cons average_row_def expand_dims_def)
  next
    case (Some t)
    then show ?thesis
      using tensor_not_its_mean[of t]
      by (auto simp: gs average_gradients_def zip_star_single_Cons average_row_def expand_dims_def
            tf_concat_def bind_err_Inr)
  qed
qed

text \<open>
  C3. With \<^verbatim>\<open>nr_tower = 1\<close> the gradients handed to \<^verbatim>\<open>apply_gradients\<close> are the list
  \<^verbatim>\<open>compute_gradients\<close> returned for the one replica, unchanged, and the graph is the
  one the model function and the optimizer left: one call of each, no tower scope, no
  reuse flag, no restored collection. \<^verbatim>\<open>start_train\<close> builds exactly this once the
  enqueue operation is made, and fails with the error of the enqueue operation
  otherwise. This is not the general path at one tower: averaging a non-empty gradient
  list of a single tower gives another list.
\<close>

theorem single_tower_gradients_unchanged:
  assumes "nr_tower config = 1" and "get_model_inputs config = Inr model_inputs"
  shows "let g = register_model config X g0;
             m = model_func X model_inputs g;
             cg = compute_gradients X (snd (fst m)) (snd m);
             avg = summary_moving_average X (snd (fst m)) (summary_grads (fst cg) (snd cg))
         in gradients_to_update config X g
              = Inr (model_inputs, fst (fst m), snd (fst m), fst cg, snd cg) \<and>
            build_graph config X g0 =
              bind_err (make_enqueue_op config) (\<lambda>the_enqueue_op.
                Inr \<lparr>b_enqueue_op = the_enqueue_op, b_grads = fst cg,
                     b_train_op = ApplyGradients (fst cg) (fst avg),
                     b_cost_var = snd (fst m), b_output_vars = fst (fst m),
                     b_model_inputs = model_inputs, b_graph = snd avg\<rparr>) \<and>
            (fst cg \<noteq> [] \<longrightarrow> average_gradients [fst cg] \<noteq> Inr (fst cg))"
proof -
  have 1: "gradients_to_update config X g =
        Inr (model_inputs, fst (fst (model_func X model_inputs g)), snd (fst (model_func X model_inputs g)),
             fst (compute_gradients X (snd (fst (model_func X model_inputs g))) (snd (model_func X model_inputs g))),
             snd (compute_gradients X (snd (fst (model_func X model_inputs g))) (snd (model_func X model_inputs g))))"
    for g
    using assms by (simp add: gradients_to_update_def build_replica_def case_prod_beta)
  show ?thesis
    unfolding Let_def
    by (intro conjI impI average_single_tower_differs)
       (simp_all add: 1 build_graph_def Let_def case_prod_beta)
qed

lemma restore_summaries_result:
  "\<forall>k\<in>set ks. \<exists>es. kept k = Some es \<Longrightarrow>
   \<exists>g'. restore_summaries ks kept g = Inr g' \<and>
        (\<forall>k. collections g' k = (if k \<in> set ks then the (kept k) else collections g k)) \<and>
        reuse g' = reuse g \<and> tower g' = tower g"
proof (induction ks arbitrary: g)
  case Nil
  then show ?case by simp
next
  case (Cons k ks)
  then obtain es where es: "kept k = Some es" by auto
  let ?g = "g\<lparr>collections := (collections g)(k := es)\<rparr>"
  from Cons.prems have "\<forall>k\<in>set ks. \<exists>es. kept k = Some es" by simp
  from Cons.IH[OF this, of ?g] obtain g' where
    g': "restore_summaries ks kept ?g = Inr g'"
        "\<forall>k'. collections g' k' = (if k' \<in> set ks then the (kept k') else collections ?g k')"
        "reuse g' = reuse ?g" "tower g' = tower ?g"
    by blast
  have "restore_summaries (k # ks) kept g = Inr g'"
    using g'(1) es by (simp add: Let_def)
  with g' es show ?case by auto
qed

lemma keep_summaries_apply:
  "keep_summaries ks g m k = (if k \<in> set ks then Some (collections g k) else m k)"
  unfolding keep_summaries_def
  by (induction ks arbitrary: m) auto

lemma tower_body_kept:
  "0 < i \<Longrightarrow> tower_body config X i st = Inr st' \<Longrightarrow> ts_kept st' = ts_kept st"
  by (auto simp: tower_body_def bind_err_Inr Let_def)

lemma tower_loop_kept:
  "0 \<notin> set is \<Longrightarrow> tower_loop config X is st = Inr st' \<Longrightarrow> ts_kept st' = ts_kept st"
proof (induction "is" arbitrary: st)
  case Nil
  then show ?case by simp
next
  case (Cons i "is")
  from Cons.prems obtain st1 where b: "tower_body config X i st = Inr st1"
      and l: "tower_loop config X is st1 = Inr st'"
    by (auto simp: bind_err_Inr)
  from Cons.prems have "0 < i" "0 \<notin> set is" by auto
  with Cons.IH[OF _ l] tower_body_kept[OF _ b] show ?case by simp
qed

text \<open>
  C9. With more than one tower, tower 0 is built first; the towers from 1 on are built
  from the graph tower 0 left with the reuse flag set; and after the loop the summaries
  and the moving-summary collections are what they were when tower 0 had been built,
  every other collection is what the last tower left, and nothing else in the state of
  the loop differs.
\<close>

theorem multi_tower_summaries_deduplicated:
  assumes "1 < nr_tower config" and "build_towers config X g = Inr st"
  shows "\<exists>model_inputs0 output_vars0 cost_var0 grads0 g2 stN.
           build_replica config X (g\<lparr>tower := Some 0\<rparr>)
             = Inr (model_inputs0, output_vars0, cost_var0, grads0, g2) \<and>
           tower_loop config X [1..<nat (nr_tower config)]
             \<lparr>ts_graph = g2\<lparr>reuse := True, tower := tower g\<rparr>,
              ts_kept = keep_summaries (coll_keys X) (g2\<lparr>reuse := True\<rparr>) Map.empty,
              ts_grads = [grads0],
              ts_last = Some (model_inputs0, output_vars0, cost_var0)\<rparr> = Inr stN \<and>
           collections (ts_graph st) SUMMARIES = collections g2 SUMMARIES \<and>
           collections (ts_graph st) (MOVING_SUMMARY_VARS_KEY X)
             = collections g2 (MOVING_SUMMARY_VARS_KEY X) \<and>
           (\<forall>k. k \<noteq> SUMMARIES \<and> k \<noteq> MOVING_SUMMARY_VARS_KEY X \<longrightarrow>
                collections (ts_graph st) k = collections (ts_graph stN) k) \<and>
           reuse (ts_graph st) = reuse (ts_graph stN) \<and>
           tower (ts_graph st) = tower (ts_graph stN) \<and>
           ts_grads st = ts_grads stN \<and> ts_last st = ts_last stN"
proof -
  from assms(1) have upt: "[0..<nat (nr_tower config)] = 0 # [1..<nat (nr_tower config)]"
    by (simp add: upt_conv_Cons)
  from assms(2) obtain stN where
    loop: "tower_loop config X [0..<nat (nr_tower config)] (initial_towers g) = Inr stN" and
    rest: "restore_summaries (coll_keys X) (ts_kept stN) (ts_graph stN) = Inr (ts_graph st)" and
    st: "st = stN\<lparr>ts_graph := ts_graph st\<rparr>"
    by (auto simp: build_towers_def bind_err_Inr)
  from loop obtain st1 where
    body: "tower_body config X 0 (initial_towers g) = Inr st1" and
    loop1: "tower_loop config X [1..<nat (nr_tower config)] st1 = Inr stN"
    unfolding upt by (auto simp: bind_err_Inr)
  from body obtain mi outs cost gs g2 where
    rep: "build_replica config X (g\<lparr>tower := Some 0\<rparr>) = Inr (mi, outs, cost, gs, g2)" and
    st1: "st1 = \<lparr>ts_graph = g2\<lparr>reuse := True, tower := tower g\<rparr>,
              ts_kept = keep_summaries (coll_keys X) (g2\<lparr>reuse := True\<rparr>) Map.empty,
              ts_grads = [gs], ts_last = Some (mi, outs, cost)\<rparr>"
    by (auto simp: tower_body_def bind_err_Inr initial_towers_def Let_def)
  have "0 \<notin> set [1..<nat (nr_tower config)]" by simp
  from tower_loop_kept[OF this loop1]
  have kept: "ts_kept stN = keep_summaries (coll_keys X) (g2\<lparr>reuse := True\<rparr>) Map.empty"
    by (simp add: st1)
  have "\<forall>k\<in>set (coll_keys X). \<exists>es. ts_kept stN k = Some es"
    by (simp add: kept keep_summaries_apply)
  from restore_summaries_result[OF this, of "ts_graph stN"] rest
  have res: "\<forall>k. collections (ts_graph st) k =
               (if k \<in> set (coll_keys X) then the (ts_kept stN k) else collections (ts_graph stN) k)"
       "reuse (ts_graph st) = reuse (ts_graph stN)" "tower (ts_graph st) = tower (ts_graph stN)"
    by auto
  have a: "collections (ts_graph st) SUMMARIES = collections g2 SUMMARIES"
    by (simp add: res(1) kept keep_summaries_apply coll_keys_def)
  have b: "collections (ts_graph st) (MOVING_SUMMARY_VARS_KEY X)
             = collections g2 (MOVING_SUMMARY_VARS_KEY X)"
    by (simp add: res(1) kept keep_summaries_apply coll_keys_def)
  have c: "\<forall>k. k \<noteq> SUMMARIES \<and> k \<noteq> MOVING_SUMMARY_VARS_KEY X \<longrightarrow>
                collections (ts_graph st) k = collections (ts_graph stN) k"
    by (simp add: res(1) coll_keys_def)
  have d: "ts_grads st = ts_grads stN" "ts_last st = ts_last stN"
    by (subst st, simp)+
  from rep loop1[unfolded st1] a b c res(2,3) d show ?thesis by blast
qed


lemma register_model_scope [simp]:
  "tower (register_model config X g) = tower g" "reuse (register_model config X g) = reuse g"
proof -
  have "tower (fold (\<lambda>v. add_to_collection k (InputVar v)) vs g') = tower g' \<and>
        reuse (fold (\<lambda>v. add_to_collection k (InputVar v)) vs g') = reuse g'" for k vs g'
    by (induction vs arbitrary: g') (simp_all add: add_to_collection_def)
  then show "tower (register_model config X g) = tower g"
    "reuse (register_model config X g) = reuse g"
    by (simp_all add: register_model_def add_to_collection_def)
qed

theorem single_tower_gradients_unchanged_witness:
  "\<exists>b. build_graph base_config demo_externals empty_graph = Inr b \<and>
       b_grads b = [(Some (TensorRef ''tower0/grad_w''), Variable ''w'')] \<and>
       b_train_op b
         = ApplyGradients [(Some (TensorRef ''tower0/grad_w''), Variable ''w'')] ''avg_maintain_op''"
proof -
  let ?g = "register_model base_config demo_externals empty_graph"
  let ?m = "model_func demo_externals demo_model_inputs ?g"
  let ?cg = "compute_gradients demo_externals (snd (fst ?m)) (snd ?m)"
  let ?avg = "summary_moving_average demo_externals (snd (fst ?m))
                (summary_grads (fst ?cg) (snd ?cg))"
  have n: "nr_tower base_config = 1" by (simp add: base_config_def)
  have cg: "fst ?cg = [(Some (TensorRef ''tower0/grad_w''), Variable ''w'')]"
    by (simp add: demo_externals_def add_to_collection_def empty_graph_def)
  have avg: "fst (summary_moving_average demo_externals c g) = ''avg_maintain_op''" for c g
    by (simp add: demo_externals_def)
  from single_tower_gradients_unchanged[OF n demo_queue_ends(2), of demo_externals empty_graph]
  have "\<exists>b. build_graph base_config demo_externals empty_graph = Inr b \<and>
           b_grads b = fst ?cg \<and> b_train_op b = ApplyGradients (fst ?cg) (fst ?avg)"
    unfolding Let_def demo_queue_ends(1) by simp
  then show ?thesis unfolding cg avg .
qed

theorem multi_tower_summaries_deduplicated_witness:
  "\<not> isl (build_towers (base_config\<lparr>nr_tower := 2\<rparr>) demo_externals empty_graph) \<and>
   collections (ts_graph (projr (build_towers (base_config\<lparr>nr_tower := 2\<rparr>) demo_externals
      empty_graph))) SUMMARIES = [Entry ''tower0/activations'']"
proof -
  let ?c = "base_config\<lparr>nr_tower := 2\<rparr>"
  have ok: "\<not> isl (build_towers ?c demo_externals empty_graph)"
    by code_simp
  then obtain st where st: "build_towers ?c demo_externals empty_graph = Inr st"
    by (cases "build_towers ?c demo_externals empty_graph") auto
  have n: "1 < nr_tower ?c" by simp
  have mi: "get_model_inputs ?c = Inr demo_model_inputs"
    by code_simp
  from multi_tower_summaries_deduplicated[OF n st] obtain g2 where
    "\<exists>a b c d. build_replica ?c demo_externals (empty_graph\<lparr>tower := Some 0\<rparr>) = Inr (a, b, c, d, g2)"
    and eq: "collections (ts_graph st) SUMMARIES = collections g2 SUMMARIES"
    by blast
  then have "collections g2 SUMMARIES = [Entry ''tower0/activations'']"
    by (auto simp: build_replica_def mi demo_externals_def add_to_collection_def empty_graph_def)
  with eq ok st show ?thesis by simp
qed

lemma summary_grads_skips_absent:
  "summary_grads ((None, var) # rest) g = summary_grads rest g"
  by simp

lemma expand_all_absent:
  "(None, v) \<in> set row \<Longrightarrow> expand_all row = Inl ValueError"
  by (induction row rule: expand_all.induct)
     (auto simp: expand_dims_def bind_err_def split: option.splits sum.splits)

lemma average_row_absent:
  "(None, v) \<in> set row \<Longrightarrow> average_row row = Inl ValueError"
  by (simp add: average_row_def expand_all_absent)

text \<open>
  C4, at a model with a variable the loss does not depend on. \<^verbatim>\<open>summary_grads\<close> skips
  the absent gradient, and with one tower the entry reaches the apply step as it is; with
  two towers \<^verbatim>\<open>average_gradients\<close> raises on it, so nothing reaches the apply step.
\<close>

theorem absent_gradient_breaks_averaging:
  "summary_grads [(None, Variable ''unused'')] g = g \<and>
   average_gradients [[(None, Variable ''unused'')], [(None, Variable ''unused'')]]
     = Inl ValueError \<and>
   (case gradients_to_update base_config unused_variable_externals empty_graph of
      Inl e \<Rightarrow> False
    | Inr (model_inputs, output_vars, cost_var, grads, g') \<Rightarrow>
        grads = [(Some (TensorRef ''grad_w''), Variable ''w''), (None, Variable ''unused'')]) \<and>
   (case gradients_to_update (base_config\<lparr>nr_tower := 2\<rparr>) unused_variable_externals empty_graph of
      Inl e \<Rightarrow> e = ValueError
    | Inr r \<Rightarrow> False)"
proof (intro conjI)
  show "summary_grads [(None, Variable ''unused'')] g = g" by simp
  show "average_gradients [[(None, Variable ''unused'')], [(None, Variable ''unused'')]]
     = Inl ValueError"
    by code_simp
  show "case gradients_to_update base_config unused_variable_externals empty_graph of
      Inl e \<Rightarrow> False
    | Inr (model_inputs, output_vars, cost_var, grads, g') \<Rightarrow>
        grads = [(Some (TensorRef ''grad_w''), Variable ''w''), (None, Variable ''unused'')]"
    by code_simp
  show "case gradients_to_update (base_config\<lparr>nr_tower := 2\<rparr>) unused_variable_externals empty_graph of
      Inl e \<Rightarrow> e = ValueError
    | Inr r \<Rightarrow> False"
    by code_simp
qed

section \<open>Properties of the gradient average\<close>

lemma zip_star_equal_lengths:
  "tg \<noteq> [] \<Longrightarrow> \<forall>t\<in>set tg. length t = L \<Longrightarrow>
     zip_star tg = map (\<lambda>i. map (\<lambda>t. t ! i) tg) [0..<L]"
proof (induction L arbitrary: tg)
  case 0
  then have "[] \<in> set tg" by (cases tg) auto
  then show ?case by (subst zip_star.simps) simp
next
  case (Suc L)
  then have ne: "[] \<notin> set tg" by auto
  have tl: "map tl tg \<noteq> []" "\<forall>t\<in>set (map tl tg). length t = L"
    using Suc.prems by auto
  have "hd t = t ! 0" if "t \<in> set tg" for t
    using ne that by (cases t) auto
  then have hd: "map hd tg = map (\<lambda>t. t ! 0) tg"
    by simp
  have tlnth: "tl t ! i = t ! Suc i" if "t \<in> set tg" for t i
    using ne that by (cases t) auto
  then have nth: "map (\<lambda>t. t ! i) (map tl tg) = map (\<lambda>t. t ! Suc i) tg" for i
    by simp
  have "zip_star tg = map hd tg # zip_star (map tl tg)"
    using Suc.prems(1) ne by (subst zip_star.simps) simp
  also have "\<dots> = map (\<lambda>t. t ! 0) tg # map (\<lambda>i. map (\<lambda>t. t ! Suc i) tg) [0..<L]"
    by (simp add: Suc.IH[OF tl] hd tlnth)
  also have "\<dots> = map (\<lambda>i. map (\<lambda>t. t ! i) tg) [0..<Suc L]"
    by (simp add: upt_conv_Cons map_Suc_upt[symmetric] del: upt_Suc)
  finally show ?case .
qed

lemma expand_all_present:
  "\<forall>e\<in>set row. fst e \<noteq> None \<Longrightarrow>
     expand_all row = Inr (map (\<lambda>e. ExpandDims (the (fst e))) row)"
  by (induction row rule: expand_all.induct) (auto simp: expand_dims_def)

lemma average_row_present:
  "row \<noteq> [] \<Longrightarrow> \<forall>e\<in>set row. fst e \<noteq> None \<Longrightarrow>
     average_row row
       = Inr (Some (ReduceMean (Concat (map (\<lambda>e. ExpandDims (the (fst e))) row))), snd (hd row))"
  by (cases row) (simp_all add: average_row_def expand_all_present tf_concat_def)

lemma average_rows_map:
  "\<forall>row\<in>set rows. average_row row = Inr (f row) \<Longrightarrow> average_rows rows = Inr (map f rows)"
  by (induction rows) simp_all

lemma average_gradients_present:
  assumes "tg \<noteq> []" and "\<forall>t\<in>set tg. length t = L" and "\<forall>t\<in>set tg. \<forall>e\<in>set t. fst e \<noteq> None"
  shows "average_gradients tg =
           Inr (map (\<lambda>i. (Some (ReduceMean (Concat (map (\<lambda>t. ExpandDims (the (fst (t ! i)))) tg))),
                          snd (tg ! 0 ! i))) [0..<L])"
proof -
  let ?f = "\<lambda>row. (Some (ReduceMean (Concat (map (\<lambda>e. ExpandDims (the (fst e))) row))), snd (hd row))"
  have rows: "zip_star tg = map (\<lambda>i. map (\<lambda>t. t ! i) tg) [0..<L]"
    by (rule zip_star_equal_lengths[OF assms(1,2)])
  have "average_row row = Inr (?f row)" if "row \<in> set (zip_star tg)" for row
  proof -
    from that obtain i where i: "i < L" "row = map (\<lambda>t. t ! i) tg"
      unfolding rows by auto
    have "row \<noteq> []" using assms(1) i by simp
    moreover have "\<forall>e\<in>set row. fst e \<noteq> None"
      using assms(2,3) i by (auto simp del: not_None_eq)
    ultimately show ?thesis by (rule average_row_present)
  qed
  then have "\<forall>row\<in>set (zip_star tg). average_row row = Inr (?f row)"
    by blast
  then have "average_gradients tg = Inr (map ?f (zip_star tg))"
    unfolding average_gradients_def by (rule average_rows_map)
  also have "map ?f (zip_star tg) =
      map (\<lambda>i. (Some (ReduceMean (Concat (map (\<lambda>t. ExpandDims (the (fst (t ! i)))) tg))),
                          snd (tg ! 0 ! i))) [0..<L]"
    unfolding rows using assms(1) by (simp add: comp_def hd_map hd_conv_nth)
  finally show ?thesis .
qed


lemma those_map_Some: "those (map Some xs) = Some xs"
  by (induction xs) simp_all

lemma length_concat_uniform:
  "\<forall>x\<in>set xs. length x = k \<Longrightarrow> length (concat xs) = length xs * k"
  by (induction xs) simp_all

lemma concat_nth_uniform:
  "\<forall>x\<in>set xs. length x = k \<Longrightarrow> i < length xs \<Longrightarrow> j < k \<Longrightarrow>
     concat xs ! (i * k + j) = xs ! i ! j"
proof (induction xs arbitrary: i)
  case Nil
  then show ?case by simp
next
  case (Cons x xs)
  show ?case
  proof (cases i)
    case 0
    with Cons.prems show ?thesis by (simp add: nth_append)
  next
    case (Suc i')
    with Cons.prems have "concat xs ! (i' * k + j) = xs ! i' ! j"
      by (intro Cons.IH) auto
    moreover have "Suc i' * k + j = length x + (i' * k + j)"
      using Cons.prems by simp
    ultimately show ?thesis
      using Suc by (simp add: nth_append del: mult_Suc)
  qed
qed

lemma sum_list_const_one: "sum_list (map (\<lambda>x. Suc 0) xs) = length xs"
  by (induction xs) simp_all

lemma concat_val_expanded:
  assumes "as \<noteq> []" and "\<forall>a\<in>set as. dims a = s"
  shows "concat_val (map expand_dims_val as)
           = Some \<lparr>dims = length as # s, elems = concat (map elems as)\<rparr>"
proof -
  from assms obtain a rest where as: "as = a # rest" by (cases as) auto
  have all: "list_all (\<lambda>x. dims x \<noteq> [] \<and> tl (dims x) = tl (dims (expand_dims_val a)))
               (map expand_dims_val as)"
    using assms by (auto simp: list_all_iff expand_dims_val_def as)
  have hd: "map (\<lambda>x. hd (dims x)) (map expand_dims_val as) = map (\<lambda>x. Suc 0) as"
    by (simp add: expand_dims_val_def)
  have el: "map elems (map expand_dims_val as) = map elems as"
    by (simp add: expand_dims_val_def)
  have tl: "tl (dims (expand_dims_val a)) = s"
    using assms by (simp add: expand_dims_val_def as)
  show ?thesis
    unfolding concat_val_def using all
    by (simp only: as list.map list.case if_True hd[unfolded as list.map] el[unfolded as list.map]
          tl sum_list_const_one[of "a # rest", unfolded list.map])
qed

lemma sum_over_rows:
  "(\<Sum>i\<leftarrow>[0..<length as]. f (as ! i)) = (\<Sum>a\<leftarrow>as. f a)"
proof -
  have "map (\<lambda>i. f (as ! i)) [0..<length as] = map f (map (\<lambda>i. as ! i) [0..<length as])"
    by simp
  then show ?thesis by (simp only: map_nth)
qed

lemma reduce_mean_stack:
  assumes "as \<noteq> []" and "\<forall>a\<in>set as. length (elems a) = prod_list s"
  shows "reduce_mean_val \<lparr>dims = length as # s, elems = concat (map elems as)\<rparr>
           = Some \<lparr>dims = s,
                   elems = map (\<lambda>j. (\<Sum>a\<leftarrow>as. elems a ! j) / real (length as))
                             [0..<prod_list s]\<rparr>"
proof -
  let ?k = "prod_list s"
  have len: "length (concat (map elems as)) = length as * ?k"
    using length_concat_uniform[of "map elems as" "prod_list s"] assms(2) by simp
  have row: "(\<Sum>i\<leftarrow>[0..<length as]. concat (map elems as) ! (i * ?k + j))
               = (\<Sum>a\<leftarrow>as. elems a ! j)" if "j < ?k" for j
  proof -
    have "map (\<lambda>i. concat (map elems as) ! (i * ?k + j)) [0..<length as]
            = map (\<lambda>i. elems (as ! i) ! j) [0..<length as]"
      using assms(2) that by (auto simp: concat_nth_uniform)
    then have "(\<Sum>i\<leftarrow>[0..<length as]. concat (map elems as) ! (i * ?k + j))
                 = (\<Sum>i\<leftarrow>[0..<length as]. elems (as ! i) ! j)"
      by (rule arg_cong)
    also have "\<dots> = (\<Sum>a\<leftarrow>as. elems a ! j)"
      by (rule sum_over_rows)
    finally show ?thesis .
  qed
  have "map (\<lambda>j. (\<Sum>i\<leftarrow>[0..<length as]. concat (map elems as) ! (i * ?k + j)) / real (length as))
            [0..<?k]
        = map (\<lambda>j. (\<Sum>a\<leftarrow>as. elems a ! j) / real (length as)) [0..<?k]"
    using row by simp
  then show ?thesis
    using assms(1) len by (simp add: reduce_mean_val_def Let_def)
qed

lemma nd_add_elems:
  assumes "length (elems a) = k" and "length (elems b) = k"
  shows "nd_add a b = \<lparr>dims = dims a, elems = map (\<lambda>j. elems a ! j + elems b ! j) [0..<k]\<rparr>"
proof -
  have "map2 (+) (elems a) (elems b) = map (\<lambda>j. elems a ! j + elems b ! j) [0..<k]"
    using assms by (auto intro!: nth_equalityI)
  then show ?thesis by (simp add: nd_add_def)
qed

lemma foldl_nd_add:
  assumes "length (elems a) = k" and "\<forall>b\<in>set bs. length (elems b) = k"
  shows "foldl nd_add a bs
           = \<lparr>dims = dims a, elems = map (\<lambda>j. elems a ! j + (\<Sum>b\<leftarrow>bs. elems b ! j)) [0..<k]\<rparr>"
  using assms
proof (induction bs arbitrary: a)
  case Nil
  have "map ((!) (elems a)) [0..<k] = elems a"
    using Nil.prems(1) map_nth[of "elems a"] by simp
  then show ?case by simp
next
  case (Cons b bs)
  have ab: "nd_add a b = \<lparr>dims = dims a, elems = map (\<lambda>j. elems a ! j + elems b ! j) [0..<k]\<rparr>"
    using Cons.prems by (intro nd_add_elems) auto
  have "foldl nd_add (nd_add a b) bs
          = \<lparr>dims = dims (nd_add a b),
             elems = map (\<lambda>j. elems (nd_add a b) ! j + (\<Sum>b\<leftarrow>bs. elems b ! j)) [0..<k]\<rparr>"
    using Cons.prems by (intro Cons.IH) (auto simp: ab)
  then show ?case by (simp add: ab add.assoc)
qed

lemma nd_sum_elems:
  assumes "as \<noteq> []" and "\<forall>a\<in>set as. dims a = s \<and> length (elems a) = k"
  shows "nd_sum as = \<lparr>dims = s, elems = map (\<lambda>j. \<Sum>a\<leftarrow>as. elems a ! j) [0..<k]\<rparr>"
proof -
  from assms obtain a rest where as: "as = a # rest" by (cases as) auto
  with assms foldl_nd_add[of a k rest] show ?thesis by simp
qed

lemma mean_of_stack:
  assumes "as \<noteq> []" and "\<forall>a\<in>set as. dims a = s \<and> length (elems a) = prod_list s"
  shows "Option.bind (concat_val (map expand_dims_val as)) reduce_mean_val
           = Some (nd_div (nd_sum as) (real (length as)))"
proof -
  have "Option.bind (concat_val (map expand_dims_val as)) reduce_mean_val
          = Some \<lparr>dims = s,
                  elems = map (\<lambda>j. (\<Sum>a\<leftarrow>as. elems a ! j) / real (length as)) [0..<prod_list s]\<rparr>"
  proof -
    have 1: "concat_val (map expand_dims_val as)
               = Some \<lparr>dims = length as # s, elems = concat (map elems as)\<rparr>"
      using assms by (intro concat_val_expanded) auto
    have 2: "reduce_mean_val \<lparr>dims = length as # s, elems = concat (map elems as)\<rparr>
           = Some \<lparr>dims = s,
                   elems = map (\<lambda>j. (\<Sum>a\<leftarrow>as. elems a ! j) / real (length as))
                             [0..<prod_list s]\<rparr>"
      using assms by (intro reduce_mean_stack) auto
    show ?thesis by (simp add: 1 2)
  qed
  also have "\<lparr>dims = s,
              elems = map (\<lambda>j. (\<Sum>a\<leftarrow>as. elems a ! j) / real (length as)) [0..<prod_list s]\<rparr>
             = nd_div (nd_sum as) (real (length as))"
    using nd_sum_elems[OF assms] by (simp add: nd_div_def comp_def)
  finally show ?thesis .
qed


lemma eval_mean:
  assumes "tg \<noteq> []"
      and "\<forall>t\<in>set tg. \<exists>a. eval \<rho> (g t) = Some a \<and> dims a = s \<and> length (elems a) = prod_list s"
  shows "eval \<rho> (ReduceMean (Concat (map (\<lambda>t. ExpandDims (g t)) tg)))
           = Some (nd_div (nd_sum (map (\<lambda>t. the (eval \<rho> (g t))) tg)) (real (length tg)))"
proof -
  let ?vals = "map (\<lambda>t. the (eval \<rho> (g t))) tg"
  have "map (eval \<rho>) (map (\<lambda>t. ExpandDims (g t)) tg) = map Some (map expand_dims_val ?vals)"
    using assms(2) by auto
  then have "eval \<rho> (Concat (map (\<lambda>t. ExpandDims (g t)) tg))
               = concat_val (map expand_dims_val ?vals)"
    by (simp only: eval.simps those_map_Some Option.bind.simps)
  then have "eval \<rho> (ReduceMean (Concat (map (\<lambda>t. ExpandDims (g t)) tg)))
               = Option.bind (concat_val (map expand_dims_val ?vals)) reduce_mean_val"
    by (simp only: eval.simps)
  also have "\<dots> = Some (nd_div (nd_sum ?vals) (real (length ?vals)))"
  proof (rule mean_of_stack)
    show "?vals \<noteq> []" using assms(1) by simp
    show "\<forall>a\<in>set ?vals. dims a = s \<and> length (elems a) = prod_list s"
      using assms(2) by auto
  qed
  finally show ?thesis by simp
qed

text \<open>
  C2. For one or more towers whose gradient lists have the same length and hold a
  gradient at every position, \<^verbatim>\<open>average_gradients\<close> returns a list of that length. At
  each position it pairs the variable of tower 0 with the tensor
  \<^verbatim>\<open>reduce_mean(concat(0, [expand_dims(g, 0) for each tower]), 0)\<close>, and in every
  execution in which the towers' gradients at that position have one shape the value of
  this tensor is their sum divided by the number of towers.
\<close>

theorem average_gradients_mean:
  assumes "tower_grads \<noteq> []"
      and "\<forall>t\<in>set tower_grads. length t = L"
      and "\<forall>t\<in>set tower_grads. \<forall>e\<in>set t. fst e \<noteq> None"
  shows "\<exists>out. average_gradients tower_grads = Inr out \<and> length out = L \<and>
           (\<forall>i<L. snd (out ! i) = snd (tower_grads ! 0 ! i) \<and>
              (\<exists>m. fst (out ! i) = Some m \<and>
                   m = ReduceMean (Concat (map (\<lambda>t. ExpandDims (the (fst (t ! i)))) tower_grads)) \<and>
                   (\<forall>\<rho> s. (\<forall>t\<in>set tower_grads. \<exists>a. eval \<rho> (the (fst (t ! i))) = Some a \<and>
                               dims a = s \<and> length (elems a) = prod_list s) \<longrightarrow>
                          eval \<rho> m
                            = Some (nd_div
                                     (nd_sum (map (\<lambda>t. the (eval \<rho> (the (fst (t ! i))))) tower_grads))
                                     (real (length tower_grads))))))"
proof -
  let ?mean = "\<lambda>i. ReduceMean (Concat (map (\<lambda>t. ExpandDims (the (fst (t ! i)))) tower_grads))"
  let ?out = "map (\<lambda>i. (Some (?mean i), snd (tower_grads ! 0 ! i))) [0..<L]"
  have res: "average_gradients tower_grads = Inr ?out"
    by (rule average_gradients_present[OF assms])
  have len: "length ?out = L" by simp
  have each: "snd (?out ! i) = snd (tower_grads ! 0 ! i) \<and>
              (\<exists>m. fst (?out ! i) = Some m \<and> m = ?mean i \<and>
                   (\<forall>\<rho> s. (\<forall>t\<in>set tower_grads. \<exists>a. eval \<rho> (the (fst (t ! i))) = Some a \<and>
                               dims a = s \<and> length (elems a) = prod_list s) \<longrightarrow>
                          eval \<rho> m
                            = Some (nd_div
                                     (nd_sum (map (\<lambda>t. the (eval \<rho> (the (fst (t ! i))))) tower_grads))
                                     (real (length tower_grads)))))" if "i < L" for i
  proof -
    from that have nth: "?out ! i = (Some (?mean i), snd (tower_grads ! 0 ! i))"
      by simp
    have ev: "eval \<rho> (?mean i)
                = Some (nd_div
                         (nd_sum (map (\<lambda>t. the (eval \<rho> (the (fst (t ! i))))) tower_grads))
                         (real (length tower_grads)))"
      if "\<forall>t\<in>set tower_grads. \<exists>a. eval \<rho> (the (fst (t ! i))) = Some a \<and>
                               dims a = s \<and> length (elems a) = prod_list s" for \<rho> s
      using assms(1) that by (rule eval_mean)
    show ?thesis
      unfolding nth fst_conv snd_conv using ev by blast
  qed
  from res len each show ?thesis by blast
qed

theorem average_gradients_mean_witness:
  "\<exists>out. average_gradients demo_tower_grads = Inr out \<and> length out = 1 \<and>
         snd (out ! 0) = Variable ''w'' \<and>
         (\<exists>m. fst (out ! 0) = Some m \<and>
              eval demo_values m = Some \<lparr>dims = [2], elems = [2, 3]\<rparr>)"
proof -
  have a: "demo_tower_grads \<noteq> []" "\<forall>t\<in>set demo_tower_grads. length t = 1"
    "\<forall>t\<in>set demo_tower_grads. \<forall>e\<in>set t. fst e \<noteq> None"
    by (simp_all add: demo_tower_grads_def)
  from average_gradients_mean[OF a] obtain out where
    out: "average_gradients demo_tower_grads = Inr out" "length out = 1" and
    all: "\<forall>i<1. snd (out ! i) = snd (demo_tower_grads ! 0 ! i) \<and>
              (\<exists>m. fst (out ! i) = Some m \<and>
                   m = ReduceMean (Concat (map (\<lambda>t. ExpandDims (the (fst (t ! i)))) demo_tower_grads)) \<and>
                   (\<forall>\<rho> s. (\<forall>t\<in>set demo_tower_grads. \<exists>a. eval \<rho> (the (fst (t ! i))) = Some a \<and>
                               dims a = s \<and> length (elems a) = prod_list s) \<longrightarrow>
                          eval \<rho> m
                            = Some (nd_div
                                     (nd_sum (map (\<lambda>t. the (eval \<rho> (the (fst (t ! i))))) demo_tower_grads))
                                     (real (length demo_tower_grads)))))"
    by blast
  from all have "snd (out ! 0) = snd (demo_tower_grads ! 0 ! 0) \<and>
              (\<exists>m. fst (out ! 0) = Some m \<and>
                   m = ReduceMean (Concat (map (\<lambda>t. ExpandDims (the (fst (t ! 0)))) demo_tower_grads)) \<and>
                   (\<forall>\<rho> s. (\<forall>t\<in>set demo_tower_grads. \<exists>a. eval \<rho> (the (fst (t ! 0))) = Some a \<and>
                               dims a = s \<and> length (elems a) = prod_list s) \<longrightarrow>
                          eval \<rho> m
                            = Some (nd_div
                                     (nd_sum (map (\<lambda>t. the (eval \<rho> (the (fst (t ! 0))))) demo_tower_grads))
                                     (real (length demo_tower_grads)))))"
    by (rule allE[where x = 0]) simp
  then obtain m where
    v: "snd (out ! 0) = snd (demo_tower_grads ! 0 ! 0)" and m: "fst (out ! 0) = Some m" and
    ev: "\<And>\<rho> s. (\<forall>t\<in>set demo_tower_grads. \<exists>a. eval \<rho> (the (fst (t ! 0))) = Some a \<and>
                               dims a = s \<and> length (elems a) = prod_list s) \<Longrightarrow>
                eval \<rho> m = Some (nd_div
                       (nd_sum (map (\<lambda>t. the (eval \<rho> (the (fst (t ! 0))))) demo_tower_grads))
                       (real (length demo_tower_grads)))"
    by blast
  have "eval demo_values m = Some (nd_div
                       (nd_sum (map (\<lambda>t. the (eval demo_values (the (fst (t ! 0))))) demo_tower_grads))
                       (real (length demo_tower_grads)))"
    by (rule ev[of demo_values "[2]"]) (simp add: demo_tower_grads_def demo_values_def)
  also have "\<dots> = Some \<lparr>dims = [2], elems = [2, 3]\<rparr>"
    by (simp add: demo_tower_grads_def demo_values_def nd_div_def nd_add_def)
  finally have e: "eval demo_values m = Some \<lparr>dims = [2], elems = [2, 3]\<rparr>" .
  have "snd (demo_tower_grads ! 0 ! 0) = Variable ''w''"
    by (simp add: demo_tower_grads_def)
  with v m e out show ?thesis by auto
qed

end
